theory Spec2Isabelle
  imports
    Main
    "HOL-Library.Sublist"
    "HOL-Library.AList"
    "HOL-Library.Word"
    "HOL-Library.Char_ord"
    "HOL-Library.List_Lexorder"
begin

text \<open>
  A model of the HLS video streaming server: the handlers of \<^verbatim>\<open>lib/lib.go\<close> and the
  converter \<^verbatim>\<open>ConvertToHLS\<close>, as functions on the tree of files below the working
  directory of the server. The encoder the converter runs for each variant is a
  parameter; requests and responses are values; the goroutine a handler starts is part
  of the handler's result. The definitions come first, in the order of the source; the
  properties follow, each claim with its theorem.
\<close>

section \<open>Strings: the helpers of \<^verbatim>\<open>strings\<close>, \<^verbatim>\<open>fmt\<close> and \<^verbatim>\<open>path/filepath\<close> the code calls\<close>

text \<open>
  Go strings are byte sequences; they are modelled as \<^typ>\<open>string\<close> (a list of
  \<^typ>\<open>char\<close>, one per byte).
\<close>

definition dquote :: char where
  "dquote = CHR 0x22"

definition newline :: char where
  "newline = CHR 0x0A"

text \<open>\<^verbatim>\<open>strings.HasSuffix(s, suffix)\<close> compares the last bytes of \<open>s\<close> with
  \<open>suffix\<close>; \<^verbatim>\<open>strings.TrimSuffix(s, suffix)\<close> is \<open>s\<close> without the trailing
  \<open>suffix\<close> when it ends with it, \<open>s\<close> itself otherwise.\<close>

definition HasSuffix :: "string \<Rightarrow> string \<Rightarrow> bool" where
  "HasSuffix s suf \<longleftrightarrow>
     length suf \<le> length s \<and> drop (length s - length suf) s = suf"

definition TrimSuffix :: "string \<Rightarrow> string \<Rightarrow> string" where
  "TrimSuffix s suf =
     (if HasSuffix s suf then take (length s - length suf) s else s)"

text \<open>\<^verbatim>\<open>filepath.Ext(path)\<close>: the loop scans from the last byte towards the
  first, stops at a path separator, and returns the text from the first dot it meets.\<close>

fun ext_scan :: "string \<Rightarrow> string \<Rightarrow> string" where
  "ext_scan [] seen = []"
| "ext_scan (c # cs) seen =
     (if c = CHR ''/'' then []
      else if c = CHR ''.'' then c # seen
      else ext_scan cs (c # seen))"

definition Ext :: "string \<Rightarrow> string" where
  "Ext p = ext_scan (rev p) []"

text \<open>The verb \<^verbatim>\<open>%d\<close> of \<^verbatim>\<open>fmt.Sprintf\<close>: decimal digits, most significant
  first, with a leading minus sign for a negative value.\<close>

definition digit_char :: "nat \<Rightarrow> char" where
  "digit_char d = ''0123456789'' ! d"

fun decimal :: "nat \<Rightarrow> string" where
  "decimal n =
     (if n < 10 then [digit_char n] else decimal (n div 10) @ [digit_char (n mod 10)])"

declare decimal.simps [simp del]

definition fmt_d :: "int \<Rightarrow> string" where
  "fmt_d i = (if i < 0 then CHR ''-'' # decimal (nat (- i)) else decimal (nat i))"

section \<open>Variants and the master playlist\<close>

text \<open>The struct \<^verbatim>\<open>variant\<close> of the converter and the package variable
  \<^verbatim>\<open>HLS_VARIANTS\<close>.\<close>

record variant =
  name :: string
  height :: string
  vbitrate :: string
  width :: string

definition HLS_VARIANTS :: "variant list" where
  "HLS_VARIANTS =
    [\<lparr>name = ''360p'', height = ''360'', vbitrate = ''800k'', width = ''640''\<rparr>,
     \<lparr>name = ''540p'', height = ''540'', vbitrate = ''1800k'', width = ''960''\<rparr>,
     \<lparr>name = ''720p'', height = ''720'', vbitrate = ''3500k'', width = ''1280''\<rparr>,
     \<lparr>name = ''1080p'', height = ''1080'', vbitrate = ''6000k'', width = ''1920''\<rparr>]"

text \<open>\<^verbatim>\<open>fmt.Sprintf("stream_%s.m3u8", v.name)\<close>\<close>

definition streamName :: "variant \<Rightarrow> string" where
  "streamName v = ''stream_'' @ name v @ ''.m3u8''"

text \<open>\<^verbatim>\<open>strings.TrimSuffix(v.vbitrate, "k") + "000"\<close>\<close>

definition bandwidth :: "variant \<Rightarrow> string" where
  "bandwidth v = TrimSuffix (vbitrate v) ''k'' @ ''000''"

text \<open>The \<^verbatim>\<open>#EXT-X-STREAM-INF\<close> line the second loop of \<^verbatim>\<open>ConvertToHLS\<close>
  formats for one variant, with its closing line break.\<close>

definition stream_inf_tag :: string where
  "stream_inf_tag = ''#EXT-X-STREAM-INF''"

definition stream_inf :: "variant \<Rightarrow> string" where
  "stream_inf v =
     stream_inf_tag @ '':BANDWIDTH='' @ bandwidth v @ '',RESOLUTION='' @ width v @ ''x''
       @ height v @ '',NAME='' @ [dquote] @ name v @ [dquote]"

definition playlist_header :: string where
  "playlist_header = ''#EXTM3U'' @ [newline] @ ''#EXT-X-VERSION:3'' @ [newline]"

text \<open>The loop over the variants: each round appends two strings to the
  \<^verbatim>\<open>strings.Builder\<close>, whose content so far is the second argument.\<close>

fun write_variants :: "variant list \<Rightarrow> string \<Rightarrow> string" where
  "write_variants [] masterContent = masterContent"
| "write_variants (v # vs) masterContent =
     write_variants vs
       ((masterContent @ (stream_inf v @ [newline])) @ (streamName v @ [newline]))"

definition master_playlist :: "variant list \<Rightarrow> string" where
  "master_playlist vs = write_variants vs playlist_header"

text \<open>Reading a text as its lines: every line ends at a line break; text after the
  last line break, when there is some, is a last line. The second argument is the line
  being read.\<close>

fun split_lines :: "string \<Rightarrow> string \<Rightarrow> string list" where
  "split_lines [] cur = (if cur = [] then [] else [cur])"
| "split_lines (c # cs) cur =
     (if c = newline then cur # split_lines cs [] else split_lines cs (cur @ [c]))"

definition lines_of :: "string \<Rightarrow> string list" where
  "lines_of s = split_lines s []"

text \<open>Reading a text of decimal digits as a number, as a player reads the
  \<^verbatim>\<open>BANDWIDTH\<close> attribute.\<close>

definition digit_value :: "char \<Rightarrow> nat" where
  "digit_value c = of_char c - of_char (CHR ''0'')"

definition decimal_value :: "string \<Rightarrow> nat" where
  "decimal_value s = foldl (\<lambda>a c. 10 * a + digit_value c) 0 s"

section \<open>The file system\<close>

text \<open>
  The state of the program is the directory tree below the working directory of the
  server. A directory holds its entries as an association list from names to nodes (the
  first entry of a name is the entry). A path is the list of its name components below
  the working directory.

  The operations are those of the package \<^verbatim>\<open>os\<close> the code calls, on a file system
  whose operations fail only for what the tree holds (a missing entry, a regular file
  where a directory is needed, a directory where a file is needed). Permissions,
  symbolic links and other processes that change the tree are not part of the state,
  and neither is what lies above the working directory: the properties of the handlers
  and of the converter are stated for identifiers and file names that are single path
  components, which stay below it.
\<close>

datatype node = File string | Dir "(string \<times> node) list"

type_synonym path = "string list"

datatype errno = ENOENT | ENOTDIR | EISDIR | ENOTEMPTY | EINVAL | EACCES | EIO

text \<open>\<^verbatim>\<open>os.IsNotExist(err)\<close>, on the error of a call (\<open>None\<close> is \<^verbatim>\<open>nil\<close>).\<close>

definition IsNotExist :: "errno option \<Rightarrow> bool" where
  "IsNotExist err = (err = Some ENOENT)"

definition err_of :: "errno + 'a \<Rightarrow> errno option" where
  "err_of r = (case r of Inl e \<Rightarrow> Some e | Inr _ \<Rightarrow> None)"

fun is_dir :: "node \<Rightarrow> bool" where
  "is_dir (Dir es) = True"
| "is_dir (File c) = False"

text \<open>A single path component: what a directory entry can be named. The identifiers
  of jobs and the names of uploaded files are meant to be such names.\<close>

definition name_component :: "string \<Rightarrow> bool" where
  "name_component s \<longleftrightarrow>
     s \<noteq> [] \<and> s \<noteq> ''.'' \<and> s \<noteq> ''..'' \<and> CHR ''/'' \<notin> set s \<and> CHR 0x00 \<notin> set s"

text \<open>\<^verbatim>\<open>filepath.Join(dir, elem)\<close> joins with a separator and cleans the result:
  empty components and \<^verbatim>\<open>.\<close> are dropped, and \<^verbatim>\<open>..\<close> removes the component before
  it (and stays when there is none). The directory is a cleaned path already; the
  element is split at its separators. The second argument of \<open>split_path\<close> is the
  component being read.\<close>

fun split_path :: "string \<Rightarrow> string \<Rightarrow> string list" where
  "split_path [] cur = [cur]"
| "split_path (c # cs) cur =
     (if c = CHR ''/'' then cur # split_path cs [] else split_path cs (cur @ [c]))"

definition clean_step :: "path \<Rightarrow> string \<Rightarrow> path" where
  "clean_step p c =
     (if c = [] \<or> c = ''.'' then p
      else if c = ''..'' then (if p = [] \<or> last p = ''..'' then p @ [c] else butlast p)
      else p @ [c])"

definition Join :: "path \<Rightarrow> string \<Rightarrow> path" where
  "Join dir elem = foldl clean_step dir (split_path elem [])"

text \<open>The text of a path, as it is passed to the encoder.\<close>

fun path_string :: "path \<Rightarrow> string" where
  "path_string [] = ''.''"
| "path_string [x] = x"
| "path_string (x # y # ys) = x @ ''/'' @ path_string (y # ys)"

text \<open>\<^verbatim>\<open>os.Stat\<close>: the node at the path, or the error.\<close>

fun os_Stat :: "node \<Rightarrow> path \<Rightarrow> errno + node" where
  "os_Stat n [] = Inr n"
| "os_Stat (File c) (x # xs) = Inl ENOTDIR"
| "os_Stat (Dir es) (x # xs) =
     (case map_of es x of None \<Rightarrow> Inl ENOENT | Some m \<Rightarrow> os_Stat m xs)"

text \<open>\<^verbatim>\<open>os.RemoveAll\<close>: removes the path and everything below it; a path that does
  not exist is no error; the working directory itself is refused.\<close>

fun os_RemoveAll :: "node \<Rightarrow> path \<Rightarrow> errno option \<times> node" where
  "os_RemoveAll n [] = (Some EINVAL, n)"
| "os_RemoveAll (File c) (x # xs) = (Some ENOTDIR, File c)"
| "os_RemoveAll (Dir es) [x] = (None, Dir (AList.delete x es))"
| "os_RemoveAll (Dir es) (x # y # ys) =
     (case map_of es x of
        None \<Rightarrow> (None, Dir es)
      | Some m \<Rightarrow>
          (case os_RemoveAll m (y # ys) of (err, m') \<Rightarrow> (err, Dir (AList.update x m' es))))"

text \<open>\<^verbatim>\<open>os.MkdirAll\<close>: creates the directory and the missing parents; a path that
  is a directory already is no error.\<close>

fun os_MkdirAll :: "node \<Rightarrow> path \<Rightarrow> errno option \<times> node" where
  "os_MkdirAll (File c) p = (Some ENOTDIR, File c)"
| "os_MkdirAll (Dir es) [] = (None, Dir es)"
| "os_MkdirAll (Dir es) (x # xs) =
     (case os_MkdirAll (case map_of es x of None \<Rightarrow> Dir [] | Some m \<Rightarrow> m) xs of
        (None, m') \<Rightarrow> (None, Dir (AList.update x m' es))
      | (Some e, m') \<Rightarrow> (Some e, Dir es))"

text \<open>\<^verbatim>\<open>os.WriteFile\<close> (and \<^verbatim>\<open>os.Create\<close> followed by the copy): creates the file
  or replaces its content; the directory of the file must exist.\<close>

fun os_WriteFile :: "node \<Rightarrow> path \<Rightarrow> string \<Rightarrow> errno option \<times> node" where
  "os_WriteFile n [] content = (Some EISDIR, n)"
| "os_WriteFile (File c) (x # xs) content = (Some ENOTDIR, File c)"
| "os_WriteFile (Dir es) [x] content =
     (case map_of es x of
        Some (Dir ds) \<Rightarrow> (Some EISDIR, Dir es)
      | _ \<Rightarrow> (None, Dir (AList.update x (File content) es)))"
| "os_WriteFile (Dir es) (x # y # ys) content =
     (case map_of es x of
        None \<Rightarrow> (Some ENOENT, Dir es)
      | Some m \<Rightarrow>
          (case os_WriteFile m (y # ys) content of
             (err, m') \<Rightarrow> (err, Dir (AList.update x m' es))))"

text \<open>\<^verbatim>\<open>os.Remove\<close>: removes a file or an empty directory.\<close>

fun os_Remove :: "node \<Rightarrow> path \<Rightarrow> errno option \<times> node" where
  "os_Remove n [] = (Some EINVAL, n)"
| "os_Remove (File c) (x # xs) = (Some ENOTDIR, File c)"
| "os_Remove (Dir es) [x] =
     (case map_of es x of
        None \<Rightarrow> (Some ENOENT, Dir es)
      | Some (File c) \<Rightarrow> (None, Dir (AList.delete x es))
      | Some (Dir ds) \<Rightarrow>
          (if ds = [] then (None, Dir (AList.delete x es)) else (Some ENOTEMPTY, Dir es)))"
| "os_Remove (Dir es) (x # y # ys) =
     (case map_of es x of
        None \<Rightarrow> (Some ENOENT, Dir es)
      | Some m \<Rightarrow>
          (case os_Remove m (y # ys) of (err, m') \<Rightarrow> (err, Dir (AList.update x m' es))))"

text \<open>\<^verbatim>\<open>os.ReadDir\<close>: the entries of a directory, sorted by name.\<close>

record DirEntry =
  Name :: string
  IsDir :: bool

definition os_ReadDir :: "node \<Rightarrow> path \<Rightarrow> errno + DirEntry list" where
  "os_ReadDir fs p =
     (case os_Stat fs p of
        Inl e \<Rightarrow> Inl e
      | Inr (File c) \<Rightarrow> Inl ENOTDIR
      | Inr (Dir es) \<Rightarrow>
          Inr (map (\<lambda>(n, m). \<lparr>Name = n, IsDir = is_dir m\<rparr>)
                 (sort_key fst (AList.clearjunk es))))"

text \<open>\<^verbatim>\<open>entries, _ := os.ReadDir(dir)\<close>: the error is dropped and the list is empty
  then.\<close>

definition entries_or_nil :: "errno + DirEntry list \<Rightarrow> DirEntry list" where
  "entries_or_nil r = (case r of Inl e \<Rightarrow> [] | Inr es \<Rightarrow> es)"

section \<open>Configuration\<close>

text \<open>The package variables \<^verbatim>\<open>uploadDir\<close> and \<^verbatim>\<open>hlsDir\<close>, as \<^verbatim>\<open>main.go\<close> passes
  them to \<^verbatim>\<open>Init\<close>: \<^verbatim>\<open>./uploads\<close> and \<^verbatim>\<open>./hls\<close>.\<close>

definition uploadDir :: path where
  "uploadDir = [''uploads'']"

definition hlsDir :: path where
  "hlsDir = [''hls'']"

section \<open>Requests and responses\<close>

text \<open>What the handlers read of a request: the method, the path of the URL, the values
  of the form (\<^verbatim>\<open>FormValue\<close> gives the empty string for a missing key) and the
  uploaded files of the form (name and content).\<close>

record Request =
  Method :: string
  URLPath :: string
  FormValue :: "string \<Rightarrow> string"
  FormFile :: "string \<Rightarrow> (string \<times> string) option"

record Video =
  ID :: string
  Ready :: bool
  Processing :: bool

record UploadedFile =
  FileName :: string

record TemplateData =
  Videos :: "Video list"
  UploadedFiles :: "UploadedFile list"
  HasProcessing :: bool

text \<open>What a handler answers: \<^verbatim>\<open>http.Redirect\<close> with the target and the status,
  \<^verbatim>\<open>http.Error\<close> with the message and the status, \<^verbatim>\<open>http.NotFound\<close>, or the page
  rendered from the template data.\<close>

datatype Response =
  Redirect string nat
| HttpError string nat
| NotFound
| Page TemplateData

definition StatusSeeOther :: nat where
  "StatusSeeOther = 303"

section \<open>The handlers that delete\<close>

definition DeleteHLSHandler :: "Request \<Rightarrow> node \<Rightarrow> Response \<times> node" where
  "DeleteHLSHandler r fs =
     (if Method r \<noteq> ''POST'' then (HttpError ''Method not allowed'' 405, fs)
      else
        let id = FormValue r ''id'' in
        if id = [] then (HttpError ''No ID provided'' 400, fs)
        else
          let outputDir = Join hlsDir id in
          (case os_RemoveAll fs outputDir of
             (err, fs') \<Rightarrow> (Redirect ''/'' StatusSeeOther, fs')))"

definition DeleteUploadHandler :: "Request \<Rightarrow> node \<Rightarrow> Response \<times> node" where
  "DeleteUploadHandler r fs =
     (if Method r \<noteq> ''POST'' then (HttpError ''Method not allowed'' 405, fs)
      else
        let filename = FormValue r ''filename'' in
        if filename = [] then (HttpError ''No filename provided'' 400, fs)
        else
          let inputPath = Join uploadDir filename in
          (case os_Remove fs inputPath of
             (err, fs') \<Rightarrow> (Redirect ''/'' StatusSeeOther, fs')))"

section \<open>The main page\<close>

text \<open>\<^verbatim>\<open>RootHandler\<close> reads the file system through \<^verbatim>\<open>os.Stat\<close> and
  \<^verbatim>\<open>os.ReadDir\<close> only, which are arguments here, so that every outcome of the two
  calls is an input.

  The first loop of the handler goes over the entries of the output root. Its state is
  \<^verbatim>\<open>videos\<close>, \<^verbatim>\<open>hlsVideoIDs\<close> and \<^verbatim>\<open>hasProcessing\<close>.\<close>

fun scan_hls :: "(path \<Rightarrow> errno + node) \<Rightarrow> DirEntry list \<Rightarrow> Video list \<times> string set \<times> bool
    \<Rightarrow> Video list \<times> string set \<times> bool" where
  "scan_hls stat [] st = st"
| "scan_hls stat (f # rest) (videos, hlsVideoIDs, hasProcessing) =
     (if IsDir f then
        let id = Name f;
            masterPath = Join (Join hlsDir id) ''master.m3u8'';
            ready = (err_of (stat masterPath) = None)
        in scan_hls stat rest
             (videos @ [\<lparr>ID = id, Ready = ready, Processing = \<not> ready\<rparr>],
              insert id hlsVideoIDs,
              (if \<not> ready then True else hasProcessing))
      else scan_hls stat rest (videos, hlsVideoIDs, hasProcessing))"

text \<open>The second loop, over the entries of the upload directory.\<close>

fun scan_uploads :: "string set \<Rightarrow> DirEntry list \<Rightarrow> UploadedFile list \<Rightarrow> UploadedFile list" where
  "scan_uploads hlsVideoIDs [] uploadedFiles = uploadedFiles"
| "scan_uploads hlsVideoIDs (f # rest) uploadedFiles =
     (if \<not> IsDir f then
        let filename = Name f;
            ext = Ext filename;
            id = TrimSuffix filename ext
        in if id \<notin> hlsVideoIDs
           then scan_uploads hlsVideoIDs rest (uploadedFiles @ [\<lparr>FileName = filename\<rparr>])
           else scan_uploads hlsVideoIDs rest uploadedFiles
      else scan_uploads hlsVideoIDs rest uploadedFiles)"

text \<open>The data the handler collects for the template, and the handler.\<close>

definition template_data :: "(path \<Rightarrow> errno + node) \<Rightarrow> (path \<Rightarrow> errno + DirEntry list)
    \<Rightarrow> TemplateData" where
  "template_data stat readdir =
     (case scan_hls stat (entries_or_nil (readdir hlsDir)) ([], {}, False) of
        (videos, hlsVideoIDs, hasProcessing) \<Rightarrow>
          \<lparr>Videos = videos,
           UploadedFiles = scan_uploads hlsVideoIDs (entries_or_nil (readdir uploadDir)) [],
           HasProcessing = hasProcessing\<rparr>)"

definition RootHandler :: "(path \<Rightarrow> errno + node) \<Rightarrow> (path \<Rightarrow> errno + DirEntry list)
    \<Rightarrow> Request \<Rightarrow> Response" where
  "RootHandler stat readdir r =
     (if URLPath r \<noteq> ''/'' then NotFound else Page (template_data stat readdir))"

text \<open>The data of the main page on a tree.\<close>

definition page_data :: "node \<Rightarrow> TemplateData" where
  "page_data fs = template_data (os_Stat fs) (os_ReadDir fs)"

text \<open>The status of a job as the main page shows it: no video of that identifier in the
  list, a video that is not ready, a video that is ready.\<close>

datatype job_status = Absent | InProcessing | IsReady

definition page_status :: "TemplateData \<Rightarrow> string \<Rightarrow> job_status" where
  "page_status d jid =
     (case find (\<lambda>v. ID v = jid) (Videos d) of
        None \<Rightarrow> Absent
      | Some v \<Rightarrow> (if Ready v then IsReady else InProcessing))"

definition Status :: "node \<Rightarrow> string \<Rightarrow> job_status" where
  "Status fs jid = page_status (page_data fs) jid"

section \<open>Uploading\<close>

text \<open>\<^verbatim>\<open>fmt.Sprintf("video_%d_%d", time.Now().UnixNano(), counter.Add(1))\<close>: the
  clock is a signed 64-bit number of nanoseconds, the counter an unsigned 64-bit number
  whose \<^verbatim>\<open>Add(1)\<close> wraps around and returns the new value. The result is the
  identifier and the counter after the call.\<close>

definition video_id :: "64 word \<Rightarrow> 64 word \<Rightarrow> string" where
  "video_id now c = ''video_'' @ fmt_d (sint now) @ ''_'' @ decimal (unat c)"

definition NewID :: "64 word \<Rightarrow> 64 word \<Rightarrow> string \<times> 64 word" where
  "NewID now counter = (video_id now (counter + 1), counter + 1)"

definition UploadHandler :: "64 word \<Rightarrow> Request \<Rightarrow> 64 word \<times> node \<Rightarrow> Response \<times> 64 word \<times> node" where
  "UploadHandler now r st =
     (case st of (counter, fs) \<Rightarrow>
        if Method r \<noteq> ''POST'' then (HttpError ''Method not allowed'' 405, counter, fs)
        else
          (case FormFile r ''video'' of
             None \<Rightarrow> (HttpError ''Cannot read file'' 400, counter, fs)
           | Some (headerFilename, content) \<Rightarrow>
               (case NewID now counter of
                  (newid, counter') \<Rightarrow>
                    let id = newid;
                        ext = Ext headerFilename;
                        filename = Join uploadDir (id @ ext)
                    in (case os_WriteFile fs filename content of
                          (Some e, fs') \<Rightarrow> (HttpError ''Cannot save file'' 500, counter', fs')
                        | (None, fs') \<Rightarrow> (Redirect ''/'' StatusSeeOther, counter', fs')))))"

section \<open>Converting\<close>

text \<open>The arguments of the \<^verbatim>\<open>ffmpeg\<close> command of one variant.\<close>

definition segmentPattern :: "path \<Rightarrow> variant \<Rightarrow> string" where
  "segmentPattern outputDir v = path_string (Join outputDir (name v @ ''_segment_%03d.ts''))"

definition ffmpeg_args :: "string \<Rightarrow> path \<Rightarrow> variant \<Rightarrow> string list" where
  "ffmpeg_args inputPath outputDir v =
     [''-i'', inputPath,
      ''-vf'', ''scale='' @ width v @ '':'' @ height v,
      ''-c:v'', ''libx264'',
      ''-preset'', ''veryfast'',
      ''-b:v'', vbitrate v,
      ''-maxrate'', vbitrate v,
      ''-bufsize'', ''2M'',
      ''-g'', ''30'',
      ''-c:a'', ''aac'',
      ''-b:a'', ''128k'',
      ''-hls_time'', ''10'',
      ''-hls_playlist_type'', ''vod'',
      ''-hls_segment_filename'', segmentPattern outputDir v,
      path_string (Join outputDir (streamName v))]"

text \<open>The encoder is a program outside the code: running it with its arguments on a
  file system gives whether \<^verbatim>\<open>cmd.Run()\<close> returned no error, and the file system it
  leaves.\<close>

type_synonym encoder = "string list \<Rightarrow> node \<Rightarrow> bool \<times> node"

text \<open>The first loop of \<^verbatim>\<open>ConvertToHLS\<close>: one encoder run per variant, stopping at
  the first that fails. The result is \<^verbatim>\<open>success\<close>, the file system, and the encoder
  runs that were made, in order: the variant of each and whether it succeeded.\<close>

fun encode_variants :: "encoder \<Rightarrow> string \<Rightarrow> path \<Rightarrow> variant list \<Rightarrow> node
    \<Rightarrow> bool \<times> node \<times> (variant \<times> bool) list" where
  "encode_variants ffmpeg inputPath outputDir [] fs = (True, fs, [])"
| "encode_variants ffmpeg inputPath outputDir (v # vs) fs =
     (case ffmpeg (ffmpeg_args inputPath outputDir v) fs of
        (ok, fs') \<Rightarrow>
          if \<not> ok then (False, fs', [(v, False)])
          else (case encode_variants ffmpeg inputPath outputDir vs fs' of
                  (success, fs'', runs) \<Rightarrow> (success, fs'', (v, True) # runs)))"

text \<open>The start of \<^verbatim>\<open>ConvertToHLS\<close>: \<^verbatim>\<open>os.RemoveAll(outputDir)\<close>, then
  \<^verbatim>\<open>os.MkdirAll(outputDir, 0755)\<close>, both with their errors dropped.\<close>

definition fresh_dir :: "path \<Rightarrow> node \<Rightarrow> node" where
  "fresh_dir outputDir fs = snd (os_MkdirAll (snd (os_RemoveAll fs outputDir)) outputDir)"

text \<open>\<^verbatim>\<open>ConvertToHLS\<close>, with the variant list it reads from \<^verbatim>\<open>HLS_VARIANTS\<close> as
  an argument (the parameter \<^verbatim>\<open>id\<close> is \<open>jid\<close> here). The result is the file system
  the run leaves.\<close>

definition ConvertToHLS :: "encoder \<Rightarrow> variant list \<Rightarrow> string \<Rightarrow> string \<Rightarrow> node \<Rightarrow> node" where
  "ConvertToHLS ffmpeg variants inputPath jid fs =
     (let outputDir = Join hlsDir jid in
      case encode_variants ffmpeg inputPath outputDir variants (fresh_dir outputDir fs) of
        (success, fs', runs) \<Rightarrow>
          if \<not> success then snd (os_RemoveAll fs' outputDir)
          else
            let masterPlaylistPath = Join outputDir ''master.m3u8'' in
            (case os_WriteFile fs' masterPlaylistPath (master_playlist variants) of
               (Some e, fs'') \<Rightarrow> snd (os_RemoveAll fs'' outputDir)
             | (None, fs'') \<Rightarrow> fs''))"

text \<open>The file systems a run passes through, in order: the one it starts on, after the
  removal, after the creation of the directory, after each encoder run, after the
  manifest is written, after a final removal.\<close>

fun encode_states :: "encoder \<Rightarrow> string \<Rightarrow> path \<Rightarrow> variant list \<Rightarrow> node \<Rightarrow> node list" where
  "encode_states ffmpeg inputPath outputDir [] fs = []"
| "encode_states ffmpeg inputPath outputDir (v # vs) fs =
     (case ffmpeg (ffmpeg_args inputPath outputDir v) fs of
        (ok, fs') \<Rightarrow>
          if \<not> ok then [fs'] else fs' # encode_states ffmpeg inputPath outputDir vs fs')"

definition ConvertToHLS_states :: "encoder \<Rightarrow> variant list \<Rightarrow> string \<Rightarrow> string \<Rightarrow> node \<Rightarrow> node list" where
  "ConvertToHLS_states ffmpeg variants inputPath jid fs =
     (let outputDir = Join hlsDir jid;
          fs1 = snd (os_RemoveAll fs outputDir);
          fs2 = snd (os_MkdirAll fs1 outputDir)
      in [fs, fs1, fs2] @ encode_states ffmpeg inputPath outputDir variants fs2 @
         (case encode_variants ffmpeg inputPath outputDir variants fs2 of
            (success, fs', runs) \<Rightarrow>
              if \<not> success then [snd (os_RemoveAll fs' outputDir)]
              else
                (case os_WriteFile fs' (Join outputDir ''master.m3u8'') (master_playlist variants) of
                   (Some e, fs'') \<Rightarrow> [fs'', snd (os_RemoveAll fs'' outputDir)]
                 | (None, fs'') \<Rightarrow> [fs''])))"

section \<open>Starting a conversion\<close>

text \<open>\<^verbatim>\<open>ReconvertHandler\<close> reads the file system through \<^verbatim>\<open>os.Stat\<close> only, which
  is its first argument here. Besides the response, the result is the call
  \<^verbatim>\<open>go ConvertToHLS(inputPath, id)\<close> when the handler makes it: its two arguments.\<close>

definition ReconvertHandler :: "(path \<Rightarrow> errno + node) \<Rightarrow> Request
    \<Rightarrow> Response \<times> (string \<times> string) option" where
  "ReconvertHandler stat r =
     (if Method r \<noteq> ''POST'' then (HttpError ''Method not allowed'' 405, None)
      else
        let filename = FormValue r ''uploaded_file'' in
        if filename = [] then (HttpError ''No file selected'' 400, None)
        else
          let inputPath = Join uploadDir filename;
              ext = Ext filename;
              id = TrimSuffix filename ext;
              outputDir = Join hlsDir id
          in if \<not> IsNotExist (err_of (stat outputDir)) then (Redirect ''/'' StatusSeeOther, None)
             else if IsNotExist (err_of (stat inputPath)) then (HttpError ''File not found'' 404, None)
             else (Redirect ''/'' StatusSeeOther, Some (path_string inputPath, id)))"

section \<open>Notions the properties are stated with\<close>

text \<open>A variant whose fields hold no line break.\<close>

definition one_line :: "variant \<Rightarrow> bool" where
  "one_line v \<longleftrightarrow>
     newline \<notin> set (name v) \<and> newline \<notin> set (height v) \<and> newline \<notin> set (vbitrate v) \<and>
     newline \<notin> set (width v)"

text \<open>The video the main page shows for a directory entry of the output root.\<close>

definition video_of :: "(path \<Rightarrow> errno + node) \<Rightarrow> string \<Rightarrow> Video" where
  "video_of stat n =
     (let ready = (err_of (stat (Join (Join hlsDir n) ''master.m3u8'')) = None)
      in \<lparr>ID = n, Ready = ready, Processing = \<not> ready\<rparr>)"

text \<open>The output directory \<^verbatim>\<open>ReconvertHandler\<close> computes for a request.\<close>

definition outputDir_of :: "Request \<Rightarrow> path" where
  "outputDir_of r =
     Join hlsDir (TrimSuffix (FormValue r ''uploaded_file'') (Ext (FormValue r ''uploaded_file'')))"

text \<open>The identifiers a sequence of calls produces, from the clock reading of each call
  and the counter before the first.\<close>

fun generated_ids :: "64 word list \<Rightarrow> 64 word \<Rightarrow> string list" where
  "generated_ids [] counter = []"
| "generated_ids (now # nows) counter =
     (case NewID now counter of (newid, counter') \<Rightarrow> newid # generated_ids nows counter')"

text \<open>There is a regular file at the path.\<close>

definition is_file_at :: "node \<Rightarrow> path \<Rightarrow> bool" where
  "is_file_at fs p = (case os_Stat fs p of Inr (File c) \<Rightarrow> True | _ \<Rightarrow> False)"

text \<open>The output directory exists and holds no manifest.\<close>

definition in_progress :: "path \<Rightarrow> node \<Rightarrow> bool" where
  "in_progress outputDir fs \<longleftrightarrow>
     (\<exists>ds. os_Stat fs outputDir = Inr (Dir ds)) \<and>
     os_Stat fs (outputDir @ [''master.m3u8'']) = Inl ENOENT"

section \<open>The contract of the encoder\<close>

text \<open>Modelled from the spec: the names of the segment files of a variant. The encoder
  is a program outside the repository and fills the pattern \<open><name>_segment_%03d.ts\<close>
  it is given with the index of the segment, in three digits at least (section 6:
  \<open><variantName>_segment_<3-digit-index>.ts\<close>).\<close>

definition pad3 :: "nat \<Rightarrow> string" where
  "pad3 k = replicate (3 - length (decimal k)) CHR ''0'' @ decimal k"

definition segmentName :: "variant \<Rightarrow> nat \<Rightarrow> string" where
  "segmentName v k = name v @ ''_segment_'' @ pad3 k @ ''.ts''"

text \<open>Modelled from the spec: what a successful encoder run for a variant leaves
  (sections 4.4 and 6). The code reads nothing of the encoder but whether it failed; the
  spec says it writes the sub-playlist \<open>stream_<name>.m3u8\<close> of the variant and its
  segment files into the output directory, of which there is at least one. That the run
  changes no other entry of the output directory is part of the contract taken here.\<close>

definition encoded :: "path \<Rightarrow> variant \<Rightarrow> node \<Rightarrow> node \<Rightarrow> bool" where
  "encoded outputDir v fs fs' \<longleftrightarrow>
     is_file_at fs' (outputDir @ [streamName v]) \<and>
     (\<exists>k. is_file_at fs' (outputDir @ [segmentName v k])) \<and>
     (\<forall>n. n \<noteq> streamName v \<and> (\<forall>k. n \<noteq> segmentName v k) \<longrightarrow>
        os_Stat fs' (outputDir @ [n]) = os_Stat fs (outputDir @ [n]))"

text \<open>The encoder keeps the contract when it is run for that input, output directory
  and variant, on any file system.\<close>

definition honours :: "encoder \<Rightarrow> string \<Rightarrow> path \<Rightarrow> variant \<Rightarrow> bool" where
  "honours ffmpeg inputPath outputDir v \<longleftrightarrow>
     (\<forall>fs fs'. ffmpeg (ffmpeg_args inputPath outputDir v) fs = (True, fs') \<longrightarrow>
        encoded outputDir v fs fs')"

text \<open>A name the run writes into the output directory: the manifest, or the
  sub-playlist or a segment of one of the variants.\<close>

definition written_by :: "variant list \<Rightarrow> string \<Rightarrow> bool" where
  "written_by vs n \<longleftrightarrow>
     n = ''master.m3u8'' \<or>
     (\<exists>v \<in> set vs. n = streamName v \<or> (\<exists>k. n = segmentName v k))"

text \<open>The output directory holds the sub-playlist and a segment of a variant.\<close>

definition has_outputs :: "path \<Rightarrow> node \<Rightarrow> variant \<Rightarrow> bool" where
  "has_outputs outputDir fs v \<longleftrightarrow>
     is_file_at fs (outputDir @ [streamName v]) \<and>
     (\<exists>k. is_file_at fs (outputDir @ [segmentName v k]))"

section \<open>Inputs of the examples\<close>

text \<open>A variant whose name holds a line break.\<close>

definition confusing_variant :: variant where
  "confusing_variant =
     \<lparr>name = ''x'' @ [newline] @ ''#EXT-X-STREAM-INF:y'', height = ''360'',
      vbitrate = ''800k'', width = ''640''\<rparr>"

text \<open>Three variants.\<close>

definition three_variants :: "variant list" where
  "three_variants = take 3 HLS_VARIANTS"

text \<open>A file system with a finished job, a job in progress, a job directory whose
  \<^verbatim>\<open>master.m3u8\<close> is a directory, a regular file in the output root, and two uploads;
  and the entries of its output root.\<close>

definition example_fs :: node where
  "example_fs =
     Dir [(''hls'',
           Dir [(''done1'', Dir [(''master.m3u8'', File ''#EXTM3U''),
                                 (''stream_360p.m3u8'', File ''s'')]),
                (''busy1'', Dir [(''stream_360p.m3u8'', File ''s'')]),
                (''odd1'', Dir [(''master.m3u8'', Dir [])]),
                (''notes.txt'', File ''n'')]),
          (''uploads'', Dir [(''busy1.mp4'', File ''v''), (''clip.mp4'', File ''v'')])]"

definition example_jobs :: "(string \<times> node) list" where
  "example_jobs =
     [(''done1'', Dir [(''master.m3u8'', File ''#EXTM3U''),
                       (''stream_360p.m3u8'', File ''s'')]),
      (''busy1'', Dir [(''stream_360p.m3u8'', File ''s'')]),
      (''odd1'', Dir [(''master.m3u8'', Dir [])]),
      (''notes.txt'', File ''n'')]"

text \<open>A file system with an empty output root and one upload.\<close>

definition fresh_fs :: node where
  "fresh_fs = Dir [(''hls'', Dir []), (''uploads'', Dir [(''clip.mp4'', File ''v'')])]"

text \<open>A \<^verbatim>\<open>POST\<close> request with the given form values.\<close>

definition post :: "(string \<times> string) list \<Rightarrow> Request" where
  "post form =
     \<lparr>Method = ''POST'', URLPath = ''/'',
      FormValue = (\<lambda>k. case map_of form k of None \<Rightarrow> [] | Some v \<Rightarrow> v),
      FormFile = (\<lambda>k. None)\<rparr>"

text \<open>An \<^verbatim>\<open>os.ReadDir\<close> that lists two directories and a regular file in the
  output root.\<close>

definition readdir_jobs :: "path \<Rightarrow> errno + DirEntry list" where
  "readdir_jobs p =
     (if p = [''hls'']
      then Inr [\<lparr>Name = ''busy1'', IsDir = True\<rparr>, \<lparr>Name = ''done1'', IsDir = True\<rparr>,
                \<lparr>Name = ''notes.txt'', IsDir = False\<rparr>]
      else Inl ENOENT)"

text \<open>An \<^verbatim>\<open>os.Stat\<close> that is refused everywhere, and one that finds the upload
  \<^verbatim>\<open>clip.mp4\<close> and nothing else.\<close>

definition stat_denied :: "path \<Rightarrow> errno + node" where
  "stat_denied p = Inl EACCES"

definition stat_clip :: "path \<Rightarrow> errno + node" where
  "stat_clip p = (if p = [''uploads'', ''clip.mp4''] then Inr (File ''v'') else Inl ENOENT)"

text \<open>An encoder for the examples. It takes the name of the sub-playlist from its last
  argument and the pattern of the segment names from the argument after
  \<^verbatim>\<open>-hls_segment_filename\<close>, writes the segment of index 0 and the sub-playlist, and
  succeeds when both could be written.\<close>

definition example_ffmpeg :: encoder where
  "example_ffmpeg args fs =
     (let playlist = Join [] (last args);
          segment = Join [] (TrimSuffix (args ! 25) ''%03d.ts'' @ ''000.ts'')
      in case os_WriteFile fs segment ''segment'' of
           (Some e, fs1) \<Rightarrow> (False, fs1)
         | (None, fs1) \<Rightarrow>
             (case os_WriteFile fs1 playlist ''#EXTM3U'' of
                (Some e, fs2) \<Rightarrow> (False, fs2)
              | (None, fs2) \<Rightarrow> (True, fs2)))"

text \<open>An encoder that fails, writing nothing, when the bitrate it is asked for is the
  given one, and is the encoder of the examples otherwise.\<close>

definition failing_ffmpeg :: "string \<Rightarrow> encoder" where
  "failing_ffmpeg bitrate args fs =
     (if args ! 9 = bitrate then (False, fs) else example_ffmpeg args fs)"

text \<open>An encoder that succeeds and leaves a directory named \<^verbatim>\<open>master.m3u8\<close> in the
  output directory (the path of its last argument without the last component).\<close>

definition blocking_ffmpeg :: encoder where
  "blocking_ffmpeg args fs =
     (True, snd (os_MkdirAll fs (Join (butlast (Join [] (last args))) ''master.m3u8'')))"

section \<open>The bandwidth of a variant\<close>

lemma TrimSuffix_append [simp]: "TrimSuffix (n @ suf) suf = n"
  by (simp add: TrimSuffix_def HasSuffix_def)

lemma set_TrimSuffix: "set (TrimSuffix s suf) \<subseteq> set s"
  by (auto simp: TrimSuffix_def dest: in_set_takeD)

lemma decimal_value_snoc: "decimal_value (s @ [c]) = 10 * decimal_value s + digit_value c"
  by (simp add: decimal_value_def)

lemma decimal_value_thousand: "decimal_value (s @ ''000'') = 1000 * decimal_value s"
  by (simp add: decimal_value_def digit_value_def)

text \<open>
  Claim C7. For a bitrate \<open>n @ ''k''\<close>, the bandwidth written into the manifest is
  \<open>n\<close> followed by \<open>000\<close>, for every text \<open>n\<close>; read as a decimal number it is a
  thousand times \<open>n\<close>; \<open>800k\<close> gives \<open>800000\<close> and \<open>6000k\<close> gives \<open>6000000\<close>.
\<close>

theorem bandwidth_kilobits:
  "bandwidth (v\<lparr>vbitrate := n @ ''k''\<rparr>) = n @ ''000'' \<and>
   stream_inf (v\<lparr>vbitrate := n @ ''k''\<rparr>) =
     stream_inf_tag @ '':BANDWIDTH='' @ (n @ ''000'') @ '',RESOLUTION='' @ width v @ ''x''
       @ height v @ '',NAME='' @ [dquote] @ name v @ [dquote] \<and>
   decimal_value (bandwidth (v\<lparr>vbitrate := n @ ''k''\<rparr>)) = 1000 * decimal_value n \<and>
   bandwidth (v\<lparr>vbitrate := ''800k''\<rparr>) = ''800000'' \<and>
   bandwidth (v\<lparr>vbitrate := ''6000k''\<rparr>) = ''6000000''"
  using TrimSuffix_append [of "''800''" "''k''"] TrimSuffix_append [of "''6000''" "''k''"]
  by (simp add: bandwidth_def stream_inf_def decimal_value_thousand)

section \<open>The master playlist\<close>

lemma write_variants_eq:
  "write_variants vs b =
     b @ concat (map (\<lambda>v. stream_inf v @ [newline] @ streamName v @ [newline]) vs)"
  by (induction vs arbitrary: b) simp_all

lemma split_lines_line:
  "newline \<notin> set l \<Longrightarrow> split_lines (l @ newline # rest) cur = (cur @ l) # split_lines rest []"
  by (induction l arbitrary: cur) auto

lemma newline_stream_inf: "one_line v \<Longrightarrow> newline \<notin> set (stream_inf v)"
  using set_TrimSuffix [of "vbitrate v" "''k''"]
  by (auto simp: one_line_def stream_inf_def stream_inf_tag_def bandwidth_def newline_def dquote_def)

lemma newline_streamName: "one_line v \<Longrightarrow> newline \<notin> set (streamName v)"
  by (auto simp: one_line_def streamName_def newline_def)

lemma lines_of_entries:
  "\<forall>v \<in> set vs. one_line v \<Longrightarrow>
   split_lines (concat (map (\<lambda>v. stream_inf v @ [newline] @ streamName v @ [newline]) vs)) [] =
     concat (map (\<lambda>v. [stream_inf v, streamName v]) vs)"
proof (induction vs)
  case Nil
  then show ?case by simp
next
  case (Cons v vs)
  then have v: "one_line v" and vs: "\<forall>v \<in> set vs. one_line v" by simp_all
  show ?case
    using split_lines_line [OF newline_stream_inf [OF v], of _ "[]"]
      split_lines_line [OF newline_streamName [OF v], of _ "[]"] Cons.IH [OF vs]
    by simp
qed

lemma lines_of_header:
  "lines_of (playlist_header @ rest) = ''#EXTM3U'' # ''#EXT-X-VERSION:3'' # split_lines rest []"
  by (simp add: lines_of_def playlist_header_def newline_def)

lemma inf_lines_count:
  "length (filter (prefix stream_inf_tag)
     (concat (map (\<lambda>v. [stream_inf v, streamName v]) vs))) = length vs"
  by (induction vs) (simp_all add: stream_inf_def streamName_def stream_inf_tag_def)

text \<open>
  Claim C3. For every variant list the manifest starts with the header
  \<^verbatim>\<open>#EXTM3U\<close>, \<^verbatim>\<open>#EXT-X-VERSION:3\<close> and is the header followed, for each variant in
  the order of the list, by its \<^verbatim>\<open>#EXT-X-STREAM-INF\<close> text closed by a line break and
  then the name \<open>stream_<name>.m3u8\<close> of its sub-playlist closed by a line break; it
  is a function of the variant list alone. When no field of a variant holds a line
  break, and so for every list of variants of \<^verbatim>\<open>HLS_VARIANTS\<close>, the only variants
  the code has, the lines of the manifest are the two header lines and then, for each
  variant in order, its \<^verbatim>\<open>#EXT-X-STREAM-INF\<close> line followed by the line of its
  sub-playlist name, and the lines that start with \<^verbatim>\<open>#EXT-X-STREAM-INF\<close> are as many
  as the variants.
\<close>

theorem master_playlist_lines:
  "prefix playlist_header (master_playlist vs) \<and>
   master_playlist vs =
     playlist_header @
     concat (map (\<lambda>v. stream_inf v @ [newline] @ streamName v @ [newline]) vs) \<and>
   ((\<forall>v \<in> set vs. one_line v) \<longrightarrow>
      lines_of (master_playlist vs) =
        ''#EXTM3U'' # ''#EXT-X-VERSION:3'' #
        concat (map (\<lambda>v. [stream_inf v, streamName v]) vs) \<and>
      length (filter (prefix stream_inf_tag) (lines_of (master_playlist vs))) = length vs) \<and>
   (set vs \<subseteq> set HLS_VARIANTS \<longrightarrow>
      lines_of (master_playlist vs) =
        ''#EXTM3U'' # ''#EXT-X-VERSION:3'' #
        concat (map (\<lambda>v. [stream_inf v, streamName v]) vs) \<and>
      length (filter (prefix stream_inf_tag) (lines_of (master_playlist vs))) = length vs)"
proof -
  have eq: "master_playlist vs =
      playlist_header @ concat (map (\<lambda>v. stream_inf v @ [newline] @ streamName v @ [newline]) vs)"
    by (simp add: master_playlist_def write_variants_eq)
  have pre: "prefix playlist_header (master_playlist vs)"
    unfolding eq by (rule prefixI) (rule refl)
  have lines: "lines_of (master_playlist vs) =
        ''#EXTM3U'' # ''#EXT-X-VERSION:3'' #
        concat (map (\<lambda>v. [stream_inf v, streamName v]) vs) \<and>
      length (filter (prefix stream_inf_tag) (lines_of (master_playlist vs))) = length vs"
    if one: "\<forall>v \<in> set vs. one_line v"
  proof -
    have ls: "lines_of (master_playlist vs) =
        ''#EXTM3U'' # ''#EXT-X-VERSION:3'' # concat (map (\<lambda>v. [stream_inf v, streamName v]) vs)"
      by (simp only: eq lines_of_header lines_of_entries [OF one])
    have "length (filter (prefix stream_inf_tag) (lines_of (master_playlist vs))) = length vs"
      unfolding ls using inf_lines_count [of vs] by (simp add: stream_inf_tag_def)
    with ls show ?thesis by simp
  qed
  have code: "\<forall>v \<in> set HLS_VARIANTS. one_line v"
    by (simp add: HLS_VARIANTS_def one_line_def newline_def)
  have "\<forall>v \<in> set vs. one_line v" if "set vs \<subseteq> set HLS_VARIANTS"
    using that code by blast
  with eq pre lines show ?thesis by blast
qed

text \<open>The manifest of the four variants of the code.\<close>

theorem master_playlist_lines_witness:
  "list_all one_line HLS_VARIANTS \<and>
   set HLS_VARIANTS \<subseteq> set HLS_VARIANTS \<and>
   lines_of (master_playlist HLS_VARIANTS) =
     [''#EXTM3U'', ''#EXT-X-VERSION:3'',
      ''#EXT-X-STREAM-INF:BANDWIDTH=800000,RESOLUTION=640x360,NAME='' @ [dquote] @ ''360p'' @ [dquote],
      ''stream_360p.m3u8'',
      ''#EXT-X-STREAM-INF:BANDWIDTH=1800000,RESOLUTION=960x540,NAME='' @ [dquote] @ ''540p'' @ [dquote],
      ''stream_540p.m3u8'',
      ''#EXT-X-STREAM-INF:BANDWIDTH=3500000,RESOLUTION=1280x720,NAME='' @ [dquote] @ ''720p'' @ [dquote],
      ''stream_720p.m3u8'',
      ''#EXT-X-STREAM-INF:BANDWIDTH=6000000,RESOLUTION=1920x1080,NAME='' @ [dquote] @ ''1080p'' @ [dquote],
      ''stream_1080p.m3u8''] \<and>
   length (filter (prefix stream_inf_tag) (lines_of (master_playlist HLS_VARIANTS))) = 4"
proof -
  have h: "\<forall>v \<in> set HLS_VARIANTS. one_line v"
    by (simp add: HLS_VARIANTS_def one_line_def newline_def)
  note t = master_playlist_lines [of HLS_VARIANTS]
  have a: "lines_of (master_playlist HLS_VARIANTS) =
        ''#EXTM3U'' # ''#EXT-X-VERSION:3'' #
        concat (map (\<lambda>v. [stream_inf v, streamName v]) HLS_VARIANTS) \<and>
      length (filter (prefix stream_inf_tag) (lines_of (master_playlist HLS_VARIANTS))) =
        length HLS_VARIANTS"
    using t [THEN conjunct2, THEN conjunct2, THEN conjunct1] h by blast
  have b: "lines_of (master_playlist HLS_VARIANTS) =
        ''#EXTM3U'' # ''#EXT-X-VERSION:3'' #
        concat (map (\<lambda>v. [stream_inf v, streamName v]) HLS_VARIANTS) \<and>
      length (filter (prefix stream_inf_tag) (lines_of (master_playlist HLS_VARIANTS))) =
        length HLS_VARIANTS"
    using t [THEN conjunct2, THEN conjunct2, THEN conjunct2] by blast
  show ?thesis
    using h a b
    by (simp add: list_all_iff HLS_VARIANTS_def stream_inf_def streamName_def bandwidth_def
        TrimSuffix_def HasSuffix_def stream_inf_tag_def)
qed

text \<open>The statement on the lines is made for fields without a line break: with a line
  break in the name of a variant, a value the code does not have, three lines of the
  manifest start with \<^verbatim>\<open>#EXT-X-STREAM-INF\<close>.\<close>

lemma line_break_in_name:
  "length (filter (prefix stream_inf_tag) (lines_of (master_playlist [confusing_variant]))) = 3 \<and>
   lines_of (master_playlist [confusing_variant]) ! 3 \<noteq> streamName confusing_variant"
  by (simp add: confusing_variant_def master_playlist_def playlist_header_def lines_of_def
      stream_inf_def streamName_def bandwidth_def TrimSuffix_def HasSuffix_def stream_inf_tag_def
      newline_def dquote_def)

section \<open>Paths and the file system\<close>

lemma split_path_plain: "CHR ''/'' \<notin> set e \<Longrightarrow> split_path e cur = [cur @ e]"
  by (induction e arbitrary: cur) auto

lemma Join_name: "name_component e \<Longrightarrow> Join dir e = dir @ [e]"
  by (simp add: Join_def name_component_def split_path_plain clean_step_def)

lemma os_Stat_snoc:
  "os_Stat fs (d @ [n]) =
     (case os_Stat fs d of
        Inl e \<Rightarrow> Inl e
      | Inr (File c) \<Rightarrow> Inl ENOTDIR
      | Inr (Dir es) \<Rightarrow> (case map_of es n of None \<Rightarrow> Inl ENOENT | Some m \<Rightarrow> Inr m))"
  by (induction fs d rule: os_Stat.induct) (auto split: option.splits node.splits sum.splits)

lemma delete_absent: "map_of es x = None \<Longrightarrow> AList.delete x es = es"
  by (simp add: map_of_eq_None_iff)

lemma os_RemoveAll_gone:
  "p \<noteq> [] \<Longrightarrow> \<exists>e. os_Stat (snd (os_RemoveAll fs p)) p = Inl e"
  by (induction fs p rule: os_RemoveAll.induct)
     (auto simp: AList.delete_conv update_conv' split: option.splits prod.splits)

lemma os_RemoveAll_idem:
  "snd (os_RemoveAll (snd (os_RemoveAll fs p)) p) = snd (os_RemoveAll fs p)"
  by (induction fs p rule: os_RemoveAll.induct)
     (auto simp: AList.delete_conv update_conv' AList.delete_idem split: option.splits prod.splits)

lemma os_RemoveAll_absent:
  "os_Stat fs p = Inl e \<Longrightarrow> snd (os_RemoveAll fs p) = fs"
  by (induction fs p rule: os_RemoveAll.induct)
     (auto simp: delete_absent AList.update_triv split: option.splits prod.splits)

lemma os_Remove_absent:
  "os_Stat fs p = Inl e \<Longrightarrow> os_Remove fs p = (Some e, fs)"
  by (induction fs p rule: os_Remove.induct)
     (auto simp: delete_absent AList.update_triv split: option.splits prod.splits node.splits)

lemma os_Remove_gone:
  "os_Remove fs p = (None, fs') \<Longrightarrow> os_Stat fs' p = Inl ENOENT"
  by (induction fs p arbitrary: fs' rule: os_Remove.induct)
     (auto simp: AList.delete_conv update_conv' split: option.splits prod.splits node.splits if_splits)

lemma os_Remove_failed:
  "fst (os_Remove fs p) \<noteq> None \<Longrightarrow> snd (os_Remove fs p) = fs"
  by (induction fs p rule: os_Remove.induct)
     (auto simp: AList.update_triv split: option.splits prod.splits node.splits if_splits)

lemma os_Remove_idem:
  "snd (os_Remove (snd (os_Remove fs p)) p) = snd (os_Remove fs p)"
proof (cases "os_Remove fs p")
  case (Pair err fs')
  show ?thesis
  proof (cases err)
    case None
    with Pair have "os_Stat fs' p = Inl ENOENT" by (simp add: os_Remove_gone)
    then show ?thesis using Pair by (simp add: os_Remove_absent)
  next
    case (Some e)
    with Pair have "fs' = fs" using os_Remove_failed [of fs p] by simp
    then show ?thesis using Pair by simp
  qed
qed

section \<open>The list of videos and the status of a job\<close>

lemma scan_hls_videos:
  "fst (scan_hls stat es (videos, ids, hp)) =
     videos @ map (\<lambda>f. video_of stat (Name f)) (filter IsDir es)"
  by (induction es arbitrary: videos ids hp) (simp_all add: video_of_def Let_def)

lemma scan_hls_flag:
  "snd (snd (scan_hls stat es (videos, ids, hp))) \<longleftrightarrow>
     hp \<or> (\<exists>f \<in> set (filter IsDir es). \<not> Ready (video_of stat (Name f)))"
  by (induction es arbitrary: videos ids hp) (auto simp: video_of_def Let_def)

lemma Videos_template_data:
  "Videos (template_data stat readdir) =
     map (\<lambda>f. video_of stat (Name f)) (filter IsDir (entries_or_nil (readdir hlsDir)))"
proof -
  obtain a b c where "scan_hls stat (entries_or_nil (readdir hlsDir)) ([], {}, False) = (a, b, c)"
    by (cases "scan_hls stat (entries_or_nil (readdir hlsDir)) ([], {}, False)") auto
  then show ?thesis
    using scan_hls_videos [of stat "entries_or_nil (readdir hlsDir)" "[]" "{}" False]
    by (simp add: template_data_def)
qed

lemma HasProcessing_template_data:
  "HasProcessing (template_data stat readdir) \<longleftrightarrow>
     (\<exists>f \<in> set (filter IsDir (entries_or_nil (readdir hlsDir))).
        \<not> Ready (video_of stat (Name f)))"
proof -
  obtain a b c where "scan_hls stat (entries_or_nil (readdir hlsDir)) ([], {}, False) = (a, b, c)"
    by (cases "scan_hls stat (entries_or_nil (readdir hlsDir)) ([], {}, False)") auto
  then show ?thesis
    using scan_hls_flag [of stat "entries_or_nil (readdir hlsDir)" "[]" "{}" False]
    by (simp add: template_data_def)
qed

lemma Videos_page_data:
  "Videos (page_data fs) =
     map (\<lambda>f. video_of (os_Stat fs) (Name f))
       (filter IsDir (entries_or_nil (os_ReadDir fs hlsDir)))"
  by (simp only: page_data_def Videos_template_data)

lemma find_video:
  "find (\<lambda>v. ID v = n) (map (\<lambda>f. video_of stat (Name f)) es) =
     (if n \<in> Name ` set es then Some (video_of stat n) else None)"
  by (induction es) (auto simp: video_of_def Let_def)

lemma page_status_eq:
  "page_status (template_data stat readdir) n =
     (if n \<in> Name ` set (filter IsDir (entries_or_nil (readdir hlsDir)))
      then (if err_of (stat (Join (Join hlsDir n) ''master.m3u8'')) = None
            then IsReady else InProcessing)
      else Absent)"
proof -
  have "find (\<lambda>v. ID v = n) (Videos (template_data stat readdir)) =
      (if n \<in> Name ` set (filter IsDir (entries_or_nil (readdir hlsDir)))
       then Some (video_of stat n) else None)"
    unfolding Videos_template_data find_video by (rule refl)
  then show ?thesis by (simp add: page_status_def video_of_def)
qed

lemma dir_names:
  assumes d: "os_Stat fs d = Inr (Dir es)"
  shows "Name ` set (filter IsDir (entries_or_nil (os_ReadDir fs d))) =
     {n. \<exists>ds. map_of es n = Some (Dir ds)}"
proof -
  have mem: "(n, m) \<in> set (AList.clearjunk es) \<longleftrightarrow> map_of es n = Some m" for n m
    using map_of_eq_Some_iff [OF distinct_clearjunk, of es n m] by (simp add: map_of_clearjunk)
  have "Name ` set (filter IsDir (entries_or_nil (os_ReadDir fs d))) =
      {n. \<exists>m. (n, m) \<in> set (AList.clearjunk es) \<and> is_dir m}"
    using d by (force simp: os_ReadDir_def entries_or_nil_def image_iff)
  also have "\<dots> = {n. \<exists>ds. map_of es n = Some (Dir ds)}"
  proof -
    have "(\<exists>m. map_of es n = Some m \<and> is_dir m) \<longleftrightarrow> (\<exists>ds. map_of es n = Some (Dir ds))" for n
      by (metis is_dir.elims(2) is_dir.simps(1))
    then show ?thesis by (simp add: mem)
  qed
  finally show ?thesis .
qed

lemma no_dir_names:
  "\<not> (\<exists>es. os_Stat fs d = Inr (Dir es)) \<Longrightarrow> entries_or_nil (os_ReadDir fs d) = []"
  by (auto simp: os_ReadDir_def entries_or_nil_def split: sum.splits node.splits)

lemma listed_iff:
  "n \<in> Name ` set (filter IsDir (entries_or_nil (os_ReadDir fs d))) \<longleftrightarrow>
     (\<exists>ds. os_Stat fs (d @ [n]) = Inr (Dir ds))"
proof (cases "\<exists>es. os_Stat fs d = Inr (Dir es)")
  case True
  then obtain es where es: "os_Stat fs d = Inr (Dir es)" by blast
  show ?thesis
    unfolding dir_names [OF es] by (auto simp: os_Stat_snoc es split: option.splits)
next
  case False
  then have "\<not> (\<exists>ds. os_Stat fs (d @ [n]) = Inr (Dir ds))"
    by (auto simp: os_Stat_snoc split: sum.splits node.splits option.splits)
  moreover have "entries_or_nil (os_ReadDir fs d) = []"
    using False by (rule no_dir_names)
  ultimately show ?thesis by simp
qed

lemma Status_eq:
  "Status fs n =
     (if \<exists>ds. os_Stat fs (hlsDir @ [n]) = Inr (Dir ds)
      then (if err_of (os_Stat fs (Join (Join hlsDir n) ''master.m3u8'')) = None
            then IsReady else InProcessing)
      else Absent)"
  unfolding Status_def page_data_def page_status_eq listed_iff by (rule refl)

lemma master_stat:
  "os_Stat fs (hlsDir @ [n]) = Inr (Dir ds) \<Longrightarrow>
   os_Stat fs (hlsDir @ [n, x]) =
     (case map_of ds x of None \<Rightarrow> Inl ENOENT | Some m \<Rightarrow> Inr m)"
  using os_Stat_snoc [of fs "hlsDir @ [n]" x] by simp

lemma name_master [simp]: "name_component ''master.m3u8''"
  by (simp add: name_component_def)

text \<open>
  Claim C2, as the code has it. Whatever \<^verbatim>\<open>os.ReadDir\<close> and \<^verbatim>\<open>os.Stat\<close> answer, the
  main page lists one video for each entry of the output root that is a directory, in
  the order of the listing, and none for the other entries; the video is ready exactly
  when \<^verbatim>\<open>os.Stat\<close> of \<open><root>/<id>/master.m3u8\<close> returns no error, whatever kind of
  entry it finds, and processing exactly when that call returns an error, whatever the
  error; the flag of the page is set exactly when a listed video is processing. So the
  status of an identifier is ready or processing by that call when the identifier is
  listed as a directory, and absent when it is not. On a tree, for a job identifier (a
  single path component), the identifier is listed exactly when \<open><root>/<id>\<close> is a
  directory; its status is ready exactly when the directory exists and
  \<open>master.m3u8\<close> in it can be read by \<^verbatim>\<open>os.Stat\<close>, processing exactly when the
  directory exists and that call fails, absent exactly when the directory does not
  exist.
\<close>

theorem status_probe:
  "Videos (template_data stat readdir) =
     map (\<lambda>f. \<lparr>ID = Name f,
                Ready = (err_of (stat (Join (Join hlsDir (Name f)) ''master.m3u8'')) = None),
                Processing = (err_of (stat (Join (Join hlsDir (Name f)) ''master.m3u8'')) \<noteq> None)\<rparr>)
       (filter IsDir (entries_or_nil (readdir hlsDir))) \<and>
   (HasProcessing (template_data stat readdir) \<longleftrightarrow>
      (\<exists>v \<in> set (Videos (template_data stat readdir)). Processing v)) \<and>
   page_status (template_data stat readdir) jid =
     (if jid \<in> Name ` set (filter IsDir (entries_or_nil (readdir hlsDir)))
      then (if err_of (stat (Join (Join hlsDir jid) ''master.m3u8'')) = None
            then IsReady else InProcessing)
      else Absent) \<and>
   (name_component jid \<longrightarrow>
      (jid \<in> Name ` set (filter IsDir (entries_or_nil (os_ReadDir fs hlsDir))) \<longleftrightarrow>
         (\<exists>ds. os_Stat fs (Join hlsDir jid) = Inr (Dir ds))) \<and>
      (Status fs jid = IsReady \<longleftrightarrow>
         (\<exists>ds. os_Stat fs (Join hlsDir jid) = Inr (Dir ds)) \<and>
         (\<exists>n. os_Stat fs (Join (Join hlsDir jid) ''master.m3u8'') = Inr n)) \<and>
      (Status fs jid = InProcessing \<longleftrightarrow>
         (\<exists>ds. os_Stat fs (Join hlsDir jid) = Inr (Dir ds)) \<and>
         (\<exists>e. os_Stat fs (Join (Join hlsDir jid) ''master.m3u8'') = Inl e)) \<and>
      (Status fs jid = Absent \<longleftrightarrow> \<not> (\<exists>ds. os_Stat fs (Join hlsDir jid) = Inr (Dir ds))))"
proof (intro conjI impI)
  show "Videos (template_data stat readdir) =
     map (\<lambda>f. \<lparr>ID = Name f,
                Ready = (err_of (stat (Join (Join hlsDir (Name f)) ''master.m3u8'')) = None),
                Processing = (err_of (stat (Join (Join hlsDir (Name f)) ''master.m3u8'')) \<noteq> None)\<rparr>)
       (filter IsDir (entries_or_nil (readdir hlsDir)))"
    by (simp add: Videos_template_data video_of_def Let_def)
  show "HasProcessing (template_data stat readdir) \<longleftrightarrow>
      (\<exists>v \<in> set (Videos (template_data stat readdir)). Processing v)"
    unfolding HasProcessing_template_data Videos_template_data
    by (simp add: video_of_def Let_def)
  show "page_status (template_data stat readdir) jid =
     (if jid \<in> Name ` set (filter IsDir (entries_or_nil (readdir hlsDir)))
      then (if err_of (stat (Join (Join hlsDir jid) ''master.m3u8'')) = None
            then IsReady else InProcessing)
      else Absent)"
    by (rule page_status_eq)
next
  assume n: "name_component jid"
  have j: "Join hlsDir jid = hlsDir @ [jid]" using n by (rule Join_name)
  show "jid \<in> Name ` set (filter IsDir (entries_or_nil (os_ReadDir fs hlsDir))) \<longleftrightarrow>
      (\<exists>ds. os_Stat fs (Join hlsDir jid) = Inr (Dir ds))"
    unfolding j by (rule listed_iff)
  show "Status fs jid = IsReady \<longleftrightarrow>
      (\<exists>ds. os_Stat fs (Join hlsDir jid) = Inr (Dir ds)) \<and>
      (\<exists>n. os_Stat fs (Join (Join hlsDir jid) ''master.m3u8'') = Inr n)"
    unfolding j
    by (cases "os_Stat fs (Join (hlsDir @ [jid]) ''master.m3u8'')")
       (simp_all add: Status_eq j err_of_def)
  show "Status fs jid = InProcessing \<longleftrightarrow>
      (\<exists>ds. os_Stat fs (Join hlsDir jid) = Inr (Dir ds)) \<and>
      (\<exists>e. os_Stat fs (Join (Join hlsDir jid) ''master.m3u8'') = Inl e)"
    unfolding j
    by (cases "os_Stat fs (Join (hlsDir @ [jid]) ''master.m3u8'')")
       (simp_all add: Status_eq j err_of_def)
  show "Status fs jid = Absent \<longleftrightarrow> \<not> (\<exists>ds. os_Stat fs (Join hlsDir jid) = Inr (Dir ds))"
    unfolding j by (simp add: Status_eq j)
qed

text \<open>The four kinds of entry of the example (a finished job, a job in progress, a
  regular file in the root, a name that is not there); and a listing of two directories
  and a file under an \<^verbatim>\<open>os.Stat\<close> that is refused everywhere: both directories are
  shown as processing and the flag is set.\<close>

theorem status_probe_witness:
  "name_component ''done1'' \<and> Status example_fs ''done1'' = IsReady \<and>
   name_component ''busy1'' \<and> Status example_fs ''busy1'' = InProcessing \<and>
   name_component ''notes.txt'' \<and> Status example_fs ''notes.txt'' = Absent \<and>
   name_component ''none1'' \<and> Status example_fs ''none1'' = Absent \<and>
   Videos (template_data stat_denied readdir_jobs) =
     [\<lparr>ID = ''busy1'', Ready = False, Processing = True\<rparr>,
      \<lparr>ID = ''done1'', Ready = False, Processing = True\<rparr>] \<and>
   HasProcessing (template_data stat_denied readdir_jobs) \<and>
   page_status (template_data stat_denied readdir_jobs) ''done1'' = InProcessing \<and>
   page_status (template_data stat_denied readdir_jobs) ''notes.txt'' = Absent"
proof -
  have n: "name_component ''done1''" "name_component ''busy1''" "name_component ''notes.txt''"
    "name_component ''none1''"
    by (simp_all add: name_component_def)
  have a: "Status example_fs ''done1'' = IsReady" "Status example_fs ''busy1'' = InProcessing"
    "Status example_fs ''notes.txt'' = Absent" "Status example_fs ''none1'' = Absent"
    using n status_probe [of _ _ "''done1''" example_fs] status_probe [of _ _ "''busy1''" example_fs]
      status_probe [of _ _ "''notes.txt''" example_fs] status_probe [of _ _ "''none1''" example_fs]
    by (simp_all add: Join_name hlsDir_def example_fs_def)
  note d = status_probe [of stat_denied readdir_jobs]
  have v: "Videos (template_data stat_denied readdir_jobs) =
     [\<lparr>ID = ''busy1'', Ready = False, Processing = True\<rparr>,
      \<lparr>ID = ''done1'', Ready = False, Processing = True\<rparr>]"
    using d [of "''done1''", THEN conjunct1]
    by (simp add: readdir_jobs_def stat_denied_def entries_or_nil_def hlsDir_def err_of_def)
  have h: "HasProcessing (template_data stat_denied readdir_jobs)"
    using d [of "''done1''", THEN conjunct2, THEN conjunct1] by (simp add: v)
  have p: "page_status (template_data stat_denied readdir_jobs) ''done1'' = InProcessing"
    "page_status (template_data stat_denied readdir_jobs) ''notes.txt'' = Absent"
    using d [of "''done1''", THEN conjunct2, THEN conjunct2, THEN conjunct1]
      d [of "''notes.txt''", THEN conjunct2, THEN conjunct2, THEN conjunct1]
    by (simp_all add: readdir_jobs_def stat_denied_def entries_or_nil_def hlsDir_def err_of_def)
  from n a v h p show ?thesis by blast
qed

text \<open>A job directory whose \<^verbatim>\<open>master.m3u8\<close> is a directory, not a file: the page
  shows it as ready.\<close>

theorem status_probe_counterexample:
  "Status example_fs ''odd1'' = IsReady \<and>
   os_Stat example_fs (Join (Join hlsDir ''odd1'') ''master.m3u8'') = Inr (Dir [])"
proof -
  have n: "name_component ''odd1''" by (simp add: name_component_def)
  show ?thesis
    by (simp add: Status_eq Join_name n hlsDir_def example_fs_def err_of_def)
qed

section \<open>Deleting\<close>

text \<open>
  Claim C9. A request to delete the output of a job whose output directory does not
  exist, and a request to delete an upload that does not exist, change nothing and are
  answered with the redirect to the main page; and each of the two handlers, run a second
  time on the state the first run left, gives the same response and leaves that state.
\<close>

theorem delete_absent_idempotent:
  "(Method r = ''POST'' \<and> name_component (FormValue r ''id'') \<and>
      os_Stat fs (Join hlsDir (FormValue r ''id'')) = Inl e \<longrightarrow>
      DeleteHLSHandler r fs = (Redirect ''/'' StatusSeeOther, fs)) \<and>
   (Method r = ''POST'' \<and> name_component (FormValue r ''filename'') \<and>
      os_Stat fs (Join uploadDir (FormValue r ''filename'')) = Inl e' \<longrightarrow>
      DeleteUploadHandler r fs = (Redirect ''/'' StatusSeeOther, fs)) \<and>
   DeleteHLSHandler r (snd (DeleteHLSHandler r fs)) = DeleteHLSHandler r fs \<and>
   DeleteUploadHandler r (snd (DeleteUploadHandler r fs)) = DeleteUploadHandler r fs"
proof -
  have a: "DeleteHLSHandler r fs = (Redirect ''/'' StatusSeeOther, fs)"
    if "Method r = ''POST''" "name_component (FormValue r ''id'')"
      "os_Stat fs (Join hlsDir (FormValue r ''id'')) = Inl e"
    using that os_RemoveAll_absent [of fs "Join hlsDir (FormValue r ''id'')" e]
    by (auto simp: DeleteHLSHandler_def Let_def name_component_def split: prod.splits)
  have b: "DeleteUploadHandler r fs = (Redirect ''/'' StatusSeeOther, fs)"
    if "Method r = ''POST''" "name_component (FormValue r ''filename'')"
      "os_Stat fs (Join uploadDir (FormValue r ''filename'')) = Inl e'"
    using that os_Remove_absent [of fs "Join uploadDir (FormValue r ''filename'')" e']
    by (auto simp: DeleteUploadHandler_def Let_def name_component_def split: prod.splits)
  have c: "DeleteHLSHandler r (snd (DeleteHLSHandler r fs)) = DeleteHLSHandler r fs"
    using os_RemoveAll_idem [of fs "Join hlsDir (FormValue r ''id'')"]
    by (auto simp: DeleteHLSHandler_def Let_def split: prod.splits)
  have d: "DeleteUploadHandler r (snd (DeleteUploadHandler r fs)) = DeleteUploadHandler r fs"
    using os_Remove_idem [of fs "Join uploadDir (FormValue r ''filename'')"]
    by (auto simp: DeleteUploadHandler_def Let_def split: prod.splits)
  from a b c d show ?thesis by blast
qed

text \<open>Deleting the job \<open>none1\<close> and the upload \<open>none1.mp4\<close>, which the example does
  not hold.\<close>

theorem delete_absent_idempotent_witness:
  "Method (post [(''id'', ''none1''), (''filename'', ''none1.mp4'')]) = ''POST'' \<and>
   name_component ''none1'' \<and> name_component ''none1.mp4'' \<and>
   os_Stat example_fs (Join hlsDir ''none1'') = Inl ENOENT \<and>
   os_Stat example_fs (Join uploadDir ''none1.mp4'') = Inl ENOENT \<and>
   DeleteHLSHandler (post [(''id'', ''none1''), (''filename'', ''none1.mp4'')]) example_fs =
     (Redirect ''/'' StatusSeeOther, example_fs) \<and>
   DeleteUploadHandler (post [(''id'', ''none1''), (''filename'', ''none1.mp4'')]) example_fs =
     (Redirect ''/'' StatusSeeOther, example_fs)"
proof -
  have n: "name_component ''none1''" "name_component ''none1.mp4''"
    by (simp_all add: name_component_def)
  have s: "os_Stat example_fs (Join hlsDir ''none1'') = Inl ENOENT"
    "os_Stat example_fs (Join uploadDir ''none1.mp4'') = Inl ENOENT"
    using n by (simp_all add: Join_name hlsDir_def uploadDir_def example_fs_def)
  show ?thesis
    using n s
      delete_absent_idempotent [of "post [(''id'', ''none1''), (''filename'', ''none1.mp4'')]"
        example_fs ENOENT ENOENT]
    by (simp add: post_def)
qed

section \<open>Starting a conversion: the check for a duplicate\<close>

text \<open>
  Claim C10. \<^verbatim>\<open>ReconvertHandler\<close> starts a conversion only when \<^verbatim>\<open>os.Stat\<close> of the
  output directory gives the error that the path does not exist. For every other outcome
  of that call (the directory is there, or any other error: permission, input/output),
  a well-formed request is answered with the redirect and no conversion is started.
  The \<^verbatim>\<open>os.Stat\<close> of the theorem is any function.
\<close>

theorem reconvert_only_when_absent:
  "(snd (ReconvertHandler stat r) \<noteq> None \<longrightarrow> stat (outputDir_of r) = Inl ENOENT) \<and>
   (Method r = ''POST'' \<and> FormValue r ''uploaded_file'' \<noteq> [] \<and>
      stat (outputDir_of r) \<noteq> Inl ENOENT \<longrightarrow>
      ReconvertHandler stat r = (Redirect ''/'' StatusSeeOther, None))"
  by (cases "stat (outputDir_of r)")
     (auto simp: ReconvertHandler_def outputDir_of_def Let_def IsNotExist_def err_of_def)

text \<open>A conversion is started for \<open>clip.mp4\<close> when nothing but the upload is found;
  none is started when every \<^verbatim>\<open>os.Stat\<close> is refused.\<close>

theorem reconvert_only_when_absent_witness:
  "snd (ReconvertHandler stat_clip (post [(''uploaded_file'', ''clip.mp4'')])) \<noteq> None \<and>
   stat_clip (outputDir_of (post [(''uploaded_file'', ''clip.mp4'')])) = Inl ENOENT \<and>
   Method (post [(''uploaded_file'', ''clip.mp4'')]) = ''POST'' \<and>
   FormValue (post [(''uploaded_file'', ''clip.mp4'')]) ''uploaded_file'' \<noteq> [] \<and>
   stat_denied (outputDir_of (post [(''uploaded_file'', ''clip.mp4'')])) \<noteq> Inl ENOENT \<and>
   ReconvertHandler stat_denied (post [(''uploaded_file'', ''clip.mp4'')]) =
     (Redirect ''/'' StatusSeeOther, None)"
proof -
  have started: "snd (ReconvertHandler stat_clip (post [(''uploaded_file'', ''clip.mp4'')])) \<noteq> None"
    by (simp add: ReconvertHandler_def post_def stat_clip_def Ext_def TrimSuffix_def HasSuffix_def
        Join_def clean_step_def hlsDir_def uploadDir_def IsNotExist_def err_of_def)
  show ?thesis
    using started
      reconvert_only_when_absent [of stat_clip "post [(''uploaded_file'', ''clip.mp4'')]"]
      reconvert_only_when_absent [of stat_denied "post [(''uploaded_file'', ''clip.mp4'')]"]
    by (simp add: post_def stat_denied_def)
qed

text \<open>
  Claim C6. A request to convert a file whose identifier (a single path component) has
  an output directory already (the job is in progress or ready) is answered with the
  redirect to the main page, and no conversion is started.
\<close>

theorem reconvert_duplicate:
  assumes "Method r = ''POST''"
    and "name_component (TrimSuffix (FormValue r ''uploaded_file'') (Ext (FormValue r ''uploaded_file'')))"
    and "Status fs (TrimSuffix (FormValue r ''uploaded_file'') (Ext (FormValue r ''uploaded_file''))) \<noteq> Absent"
  shows "ReconvertHandler (os_Stat fs) r = (Redirect ''/'' StatusSeeOther, None)"
proof -
  let ?f = "FormValue r ''uploaded_file''"
  let ?id = "TrimSuffix ?f (Ext ?f)"
  have f: "?f \<noteq> []"
    using assms(2) by (auto simp: name_component_def TrimSuffix_def)
  obtain ds where "os_Stat fs (hlsDir @ [?id]) = Inr (Dir ds)"
    using assms(3) by (auto simp: Status_eq split: if_splits)
  then have "\<not> IsNotExist (err_of (os_Stat fs (Join hlsDir ?id)))"
    by (simp add: Join_name [OF assms(2)] IsNotExist_def err_of_def)
  then show ?thesis
    using assms(1) f by (simp add: ReconvertHandler_def Let_def)
qed

text \<open>The upload \<open>busy1.mp4\<close> of the example, whose job is in progress.\<close>

theorem reconvert_duplicate_witness:
  "Method (post [(''uploaded_file'', ''busy1.mp4'')]) = ''POST'' \<and>
   name_component (TrimSuffix ''busy1.mp4'' (Ext ''busy1.mp4'')) \<and>
   Status example_fs (TrimSuffix ''busy1.mp4'' (Ext ''busy1.mp4'')) = InProcessing \<and>
   ReconvertHandler (os_Stat example_fs) (post [(''uploaded_file'', ''busy1.mp4'')]) =
     (Redirect ''/'' StatusSeeOther, None)"
proof -
  have id: "TrimSuffix ''busy1.mp4'' (Ext ''busy1.mp4'') = ''busy1''"
    by (simp add: Ext_def TrimSuffix_def HasSuffix_def)
  have n: "name_component ''busy1''" by (simp add: name_component_def)
  have s: "Status example_fs ''busy1'' = InProcessing"
    by (simp add: Status_eq Join_name n hlsDir_def example_fs_def err_of_def)
  show ?thesis
    using id n s reconvert_duplicate [of "post [(''uploaded_file'', ''busy1.mp4'')]" example_fs]
    by (simp add: post_def)
qed

section \<open>The file systems a run passes through\<close>

text \<open>The list of file systems follows the run: the encoder runs end in the file system
  the loop returns, there is one file system per encoder run, and the last file system of
  the list is the result of \<^verbatim>\<open>ConvertToHLS\<close>.\<close>

lemma encode_states_runs:
  "length (encode_states ffmpeg inputPath outputDir vs fs) =
     length (snd (snd (encode_variants ffmpeg inputPath outputDir vs fs)))"
  by (induction vs arbitrary: fs) (auto split: prod.splits)

lemma encode_states_last:
  "last (fs # encode_states ffmpeg inputPath outputDir vs fs) =
     fst (snd (encode_variants ffmpeg inputPath outputDir vs fs))"
  by (induction vs arbitrary: fs) (auto split: prod.splits)

lemma ConvertToHLS_states_last:
  "last (ConvertToHLS_states ffmpeg variants inputPath jid fs) =
     ConvertToHLS ffmpeg variants inputPath jid fs"
  by (auto simp: ConvertToHLS_states_def ConvertToHLS_def Let_def fresh_dir_def
      split: prod.splits option.splits)

section \<open>A run that fails\<close>

lemma encode_runs_failed:
  "encode_variants ffmpeg inputPath outputDir vs fs = (False, fs', runs) \<Longrightarrow>
   \<exists>vs1 v vs2. vs = vs1 @ v # vs2 \<and> runs = map (\<lambda>u. (u, True)) vs1 @ [(v, False)]"
proof (induction vs arbitrary: fs fs' runs)
  case Nil
  then show ?case by simp
next
  case (Cons v vs)
  obtain ok fs1 where run: "ffmpeg (ffmpeg_args inputPath outputDir v) fs = (ok, fs1)"
    by (cases "ffmpeg (ffmpeg_args inputPath outputDir v) fs") auto
  show ?case
  proof (cases ok)
    case False
    with run Cons.prems have "runs = [(v, False)]" by simp
    then have "v # vs = [] @ v # vs \<and> runs = map (\<lambda>u. (u, True)) [] @ [(v, False)]" by simp
    then show ?thesis by blast
  next
    case True
    obtain s fs2 runs' where rest:
      "encode_variants ffmpeg inputPath outputDir vs fs1 = (s, fs2, runs')"
      by (cases "encode_variants ffmpeg inputPath outputDir vs fs1") auto
    with run True Cons.prems have s: "s = False" and r: "runs = (v, True) # runs'" by simp_all
    from Cons.IH [OF rest [unfolded s]] obtain vs1 u vs2
      where "vs = vs1 @ u # vs2" "runs' = map (\<lambda>u. (u, True)) vs1 @ [(u, False)]" by blast
    with r have "v # vs = (v # vs1) @ u # vs2 \<and>
        runs = map (\<lambda>u. (u, True)) (v # vs1) @ [(u, False)]" by simp
    then show ?thesis by blast
  qed
qed

lemma Status_gone:
  "os_Stat fs (hlsDir @ [n]) = Inl e \<Longrightarrow> Status fs n = Absent"
  by (simp add: Status_eq)


text \<open>The definitions an example run unfolds.\<close>

lemmas run_simps =
  three_variants_def HLS_VARIANTS_def ffmpeg_args_def segmentPattern_def streamName_def
  failing_ffmpeg_def example_ffmpeg_def blocking_ffmpeg_def Join_def clean_step_def
  fresh_dir_def example_fs_def hlsDir_def TrimSuffix_def HasSuffix_def



section \<open>The start of a run\<close>

lemma root_dir:
  "os_Stat fs hlsDir = Inr (Dir es) \<Longrightarrow> \<exists>r. fs = Dir r \<and> map_of r ''hls'' = Some (Dir es)"
  by (cases fs) (auto simp: hlsDir_def split: option.splits)

lemma removed_dir:
  assumes "os_Stat fs hlsDir = Inr (Dir es)"
  shows "os_Stat (snd (os_RemoveAll fs (hlsDir @ [n]))) (hlsDir @ [n]) = Inl ENOENT"
  using root_dir [OF assms]
  by (auto simp: hlsDir_def update_conv' delete_conv')

lemma fresh_dir_empty:
  assumes "os_Stat fs hlsDir = Inr (Dir es)"
  shows "os_Stat (fresh_dir (hlsDir @ [n]) fs) (hlsDir @ [n]) = Inr (Dir [])"
  using root_dir [OF assms]
  by (auto simp: fresh_dir_def hlsDir_def update_conv' delete_conv')



section \<open>Identifiers\<close>

lemma digit_char_digit: "d < 10 \<Longrightarrow> digit_char d \<in> set ''0123456789''"
  unfolding digit_char_def by (rule nth_mem) simp

lemma decimal_digits: "set (decimal n) \<subseteq> set ''0123456789''"
proof (induction n rule: decimal.induct)
  case (1 n)
  show ?case
  proof (cases "n < 10")
    case True
    then show ?thesis
      using digit_char_digit [of n] by (subst decimal.simps) simp
  next
    case False
    then show ?thesis
      using "1.IH" digit_char_digit [of "n mod 10"] by (subst decimal.simps) simp
  qed
qed

lemma decimal_nonempty: "decimal n \<noteq> []"
  by (subst decimal.simps) simp

lemma digit_value_char: "d < 10 \<Longrightarrow> digit_value (digit_char d) = d"
proof -
  assume "d < 10"
  then have "d \<in> {0, 1, 2, 3, 4, 5, 6, 7, 8, 9}" by auto
  then show ?thesis by (auto simp: digit_value_def digit_char_def)
qed

lemma decimal_value_decimal: "decimal_value (decimal n) = n"
proof (induction n rule: decimal.induct)
  case (1 n)
  show ?case
  proof (cases "n < 10")
    case True
    then show ?thesis
      by (subst decimal.simps) (simp add: decimal_value_def digit_value_char)
  next
    case False
    then show ?thesis
      using "1.IH" by (subst decimal.simps) (simp add: decimal_value_snoc digit_value_char)
  qed
qed

lemma decimal_inj: "decimal m = decimal n \<Longrightarrow> m = n"
  by (metis decimal_value_decimal)

lemma fmt_d_chars: "set (fmt_d i) \<subseteq> insert CHR ''-'' (set ''0123456789'')"
proof -
  have sub: "set xs \<subseteq> D \<Longrightarrow> set (c # xs) \<subseteq> insert c D \<and> set xs \<subseteq> insert c D"
    for xs :: string and c D
    by auto
  show ?thesis
    unfolding fmt_d_def
    using sub [OF decimal_digits [of "nat (- i)"], of "CHR ''-''"]
      sub [OF decimal_digits [of "nat i"], of "CHR ''-''"]
    by (simp only: split: if_split) blast
qed

lemma hd_decimal: "hd (decimal n) \<noteq> CHR ''-''"
  using decimal_digits [of n] decimal_nonempty [of n]
  by (cases "decimal n") auto

lemma fmt_d_inj: "fmt_d i = fmt_d j \<Longrightarrow> i = j"
proof (cases "i < 0"; cases "j < 0")
  assume "i < 0" "j < 0" "fmt_d i = fmt_d j"
  then have "decimal (nat (- i)) = decimal (nat (- j))" by (simp add: fmt_d_def)
  then have "nat (- i) = nat (- j)" by (rule decimal_inj)
  with \<open>i < 0\<close> \<open>j < 0\<close> show ?thesis by simp
next
  assume "i < 0" "\<not> j < 0" "fmt_d i = fmt_d j"
  then have "CHR ''-'' # decimal (nat (- i)) = decimal (nat j)" by (simp add: fmt_d_def)
  then show ?thesis using hd_decimal [of "nat j"] by (cases "decimal (nat j)") auto
next
  assume "\<not> i < 0" "j < 0" "fmt_d i = fmt_d j"
  then have "decimal (nat i) = CHR ''-'' # decimal (nat (- j))" by (simp add: fmt_d_def)
  then show ?thesis using hd_decimal [of "nat i"] by (cases "decimal (nat i)") auto
next
  assume "\<not> i < 0" "\<not> j < 0" "fmt_d i = fmt_d j"
  then have "decimal (nat i) = decimal (nat j)" by (simp add: fmt_d_def)
  then have "nat i = nat j" by (rule decimal_inj)
  with \<open>\<not> i < 0\<close> \<open>\<not> j < 0\<close> show ?thesis by simp
qed

lemma split_at_last:
  "c \<notin> set ys \<Longrightarrow> c \<notin> set ys' \<Longrightarrow> xs @ c # ys = xs' @ c # ys' \<Longrightarrow>
   xs = xs' \<and> ys = ys'"
proof (induction xs arbitrary: xs')
  case Nil
  then show ?case by (cases xs') auto
next
  case (Cons a as)
  then show ?case by (cases xs') auto
qed

lemma not_digit:
  "c \<notin> set ''0123456789'' \<Longrightarrow> c \<notin> set (decimal n)"
  using decimal_digits [of n] by blast

lemma not_fmt_d:
  "c \<notin> set ''0123456789'' \<Longrightarrow> c \<noteq> CHR ''-'' \<Longrightarrow> c \<notin> set (fmt_d i)"
  using fmt_d_chars [of i] by blast

lemma video_id_inj:
  assumes "video_id t c = video_id t' c'"
  shows "t = t' \<and> c = c'"
proof -
  have u: "CHR ''_'' \<notin> set (decimal (unat c))" "CHR ''_'' \<notin> set (decimal (unat c'))"
    by (rule not_digit, simp)+
  from assms have "(''video_'' @ fmt_d (sint t)) @ CHR ''_'' # decimal (unat c) =
      (''video_'' @ fmt_d (sint t')) @ CHR ''_'' # decimal (unat c')"
    by (simp add: video_id_def)
  from split_at_last [OF u this] have "fmt_d (sint t) = fmt_d (sint t')"
    and "decimal (unat c) = decimal (unat c')" by simp_all
  then have "sint t = sint t'" and "unat c = unat c'"
    by (auto dest: fmt_d_inj decimal_inj)
  then show ?thesis by (auto intro: signed_word_eqI unsigned_word_eqI)
qed

lemma video_id_name: "name_component (video_id t c)"
proof -
  have "CHR ''/'' \<notin> set (fmt_d (sint t))" "CHR 0x00 \<notin> set (fmt_d (sint t))"
    by (rule not_fmt_d, simp, simp)+
  moreover have "CHR ''/'' \<notin> set (decimal (unat c))" "CHR 0x00 \<notin> set (decimal (unat c))"
    by (rule not_digit, simp)+
  ultimately have "CHR ''/'' \<notin> set (video_id t c)" "CHR 0x00 \<notin> set (video_id t c)"
    by (simp_all add: video_id_def)
  moreover have "video_id t c \<noteq> []" "video_id t c \<noteq> ''.''" "video_id t c \<noteq> ''..''"
    by (simp_all add: video_id_def)
  ultimately show ?thesis by (simp add: name_component_def)
qed

lemma generated_ids_counter:
  "x \<in> set (generated_ids nows c) \<Longrightarrow>
   \<exists>t j. 1 \<le> j \<and> j \<le> length nows \<and> x = video_id t (c + of_nat j)"
proof (induction nows arbitrary: c)
  case Nil
  then show ?case by simp
next
  case (Cons now nows)
  from Cons.prems consider "x = video_id now (c + 1)" | "x \<in> set (generated_ids nows (c + 1))"
    by (auto simp: NewID_def)
  then show ?case
  proof cases
    case 1
    then have "1 \<le> (1::nat) \<and> 1 \<le> length (now # nows) \<and> x = video_id now (c + of_nat 1)"
      by simp
    then show ?thesis by blast
  next
    case 2
    from Cons.IH [OF 2] obtain t j where
      j: "1 \<le> j" "j \<le> length nows" "x = video_id t (c + 1 + of_nat j)" by blast
    then have "1 \<le> Suc j \<and> Suc j \<le> length (now # nows) \<and> x = video_id t (c + of_nat (Suc j))"
      by (simp add: add.assoc)
    then show ?thesis by blast
  qed
qed

lemma counter_moved:
  fixes c :: "64 word"
  assumes "1 \<le> j" "j < 2 ^ 64"
  shows "c + of_nat j \<noteq> c"
proof
  assume "c + of_nat j = c"
  then have "(of_nat j :: 64 word) = 0" by simp
  then have "2 ^ 64 dvd j" by (simp add: word_of_nat_eq_0_iff)
  with assms show False by (auto dest: dvd_imp_le)
qed

lemma generated_ids_distinct:
  "length nows \<le> 2 ^ 64 \<Longrightarrow> distinct (generated_ids nows c)"
proof (induction nows arbitrary: c)
  case Nil
  then show ?case by simp
next
  case (Cons now nows)
  have "video_id now (c + 1) \<notin> set (generated_ids nows (c + 1))"
  proof
    assume "video_id now (c + 1) \<in> set (generated_ids nows (c + 1))"
    from generated_ids_counter [OF this] obtain t j where
      j: "1 \<le> j" "j \<le> length nows" "video_id now (c + 1) = video_id t (c + 1 + of_nat j)"
      by blast
    from j(3) have "c + 1 + of_nat j = c + 1" using video_id_inj by metis
    moreover have "j < 2 ^ 64" using j(2) Cons.prems by simp
    ultimately show False using counter_moved [OF j(1), of "c + 1"] by simp
  qed
  moreover have "distinct (generated_ids nows (c + 1))"
    using Cons.prems by (intro Cons.IH) simp
  ultimately show ?case by (simp add: NewID_def)
qed

text \<open>
  Claim C8. Two identifiers made from different counter values differ, whatever the two
  clock readings; every identifier is a single path component (not empty, not \<^verbatim>\<open>.\<close> or
  \<^verbatim>\<open>..\<close>, without separator or zero byte); each call moves the counter by one; and the
  identifiers of a sequence of at most \<open>2 ^ 64\<close> calls are pairwise different.
\<close>

theorem identifiers_unique:
  "(c1 \<noteq> c2 \<longrightarrow> video_id t1 c1 \<noteq> video_id t2 c2) \<and>
   name_component (fst (NewID now counter)) \<and>
   snd (NewID now counter) = counter + 1 \<and>
   (length nows \<le> 2 ^ 64 \<longrightarrow> distinct (generated_ids nows counter))"
  using video_id_inj [of t1 c1 t2 c2] video_id_name [of now "counter + 1"]
    generated_ids_distinct [of nows counter]
  by (simp add: NewID_def) blast

text \<open>Two calls at the same clock reading, and three calls at the same clock reading
  from the largest counter value, which wraps around.\<close>

theorem identifiers_unique_witness:
  "(1 :: 64 word) \<noteq> 2 \<and> video_id 1700000000000000000 1 \<noteq> video_id 1700000000000000000 2 \<and>
   video_id 1700000000000000000 1 = ''video_1700000000000000000_1'' \<and>
   length [5, 5, 5 :: 64 word] \<le> 2 ^ 64 \<and>
   generated_ids [5, 5, 5] 18446744073709551615 = [''video_5_0'', ''video_5_1'', ''video_5_2''] \<and>
   distinct (generated_ids [5, 5, 5] 18446744073709551615)"
proof -
  have a: "(1 :: 64 word) \<noteq> 2" by simp
  have b: "length [5, 5, 5 :: 64 word] \<le> 2 ^ 64" by simp
  have c: "video_id 1700000000000000000 1 = ''video_1700000000000000000_1''"
    by (simp add: video_id_def fmt_d_def decimal.simps digit_char_def)
  have d: "generated_ids [5, 5, 5] 18446744073709551615 = [''video_5_0'', ''video_5_1'', ''video_5_2'']"
    by (simp add: NewID_def video_id_def fmt_d_def decimal.simps digit_char_def)
  show ?thesis
    using a b c d identifiers_unique [where ?c1.0 = 1 and ?c2.0 = 2 and ?t1.0 = 1700000000000000000
        and ?t2.0 = 1700000000000000000 and nows = "[5, 5, 5]" and counter = 18446744073709551615]
    by simp
qed

section \<open>A run that succeeds\<close>

lemma os_WriteFile_Cons:
  "xs \<noteq> [] \<Longrightarrow> os_WriteFile (Dir es) (x # xs) c =
     (case map_of es x of
        None \<Rightarrow> (Some ENOENT, Dir es)
      | Some m \<Rightarrow> (case os_WriteFile m xs c of (err, m') \<Rightarrow> (err, Dir (AList.update x m' es))))"
  by (cases xs) (auto split: option.splits)

lemma os_WriteFile_done:
  "os_WriteFile fs (d @ [n]) c = (None, fs') \<Longrightarrow>
   \<exists>es. os_Stat fs d = Inr (Dir es) \<and> os_Stat fs' d = Inr (Dir (AList.update n (File c) es))"
proof (induction d arbitrary: fs fs')
  case Nil
  then show ?case
    by (cases fs) (auto split: option.splits node.splits)
next
  case (Cons x xs)
  show ?case
  proof (cases fs)
    case (File c')
    with Cons.prems show ?thesis by simp
  next
    case (Dir r)
    show ?thesis
    proof (cases "map_of r x")
      case None
      with Dir Cons.prems show ?thesis by (simp add: os_WriteFile_Cons)
    next
      case (Some m)
      obtain err m' where w: "os_WriteFile m (xs @ [n]) c = (err, m')"
        by (cases "os_WriteFile m (xs @ [n]) c") auto
      with Dir Some Cons.prems have e: "err = None" and f: "fs' = Dir (AList.update x m' r)"
        by (simp_all add: os_WriteFile_Cons)
      from Cons.IH [OF w [unfolded e]] obtain es where
        "os_Stat m xs = Inr (Dir es)" "os_Stat m' xs = Inr (Dir (AList.update n (File c) es))"
        by blast
      then show ?thesis using Dir Some f by (simp add: update_conv')
    qed
  qed
qed

lemma os_WriteFile_free:
  "os_Stat fs d = Inr (Dir es) \<Longrightarrow> \<forall>ds. map_of es n \<noteq> Some (Dir ds) \<Longrightarrow>
   fst (os_WriteFile fs (d @ [n]) c) = None"
proof (induction d arbitrary: fs)
  case Nil
  then show ?case
    by (cases fs) (auto split: option.splits node.splits)
next
  case (Cons x xs)
  show ?case
  proof (cases fs)
    case (File c')
    with Cons.prems show ?thesis by simp
  next
    case (Dir r)
    with Cons.prems obtain m where m: "map_of r x = Some m" "os_Stat m xs = Inr (Dir es)"
      by (auto split: option.splits)
    from Cons.IH [OF m(2) Cons.prems(2)] show ?thesis
      using Dir m(1) by (cases "os_WriteFile m (xs @ [n]) c") (simp add: os_WriteFile_Cons)
  qed
qed

lemma stream_not_master: "streamName v \<noteq> ''master.m3u8''"
  by (simp add: streamName_def)

lemma segment_not_master: "segmentName v k \<noteq> ''master.m3u8''"
proof
  assume "segmentName v k = ''master.m3u8''"
  then have "last (segmentName v k) = last ''master.m3u8''" by simp
  then show False by (simp add: segmentName_def)
qed

lemma stream_not_segment: "streamName u \<noteq> segmentName v k"
proof
  assume "streamName u = segmentName v k"
  then have "last (streamName u) = last (segmentName v k)" by simp
  then show False by (simp add: segmentName_def streamName_def)
qed


lemma pad3_digits: "c \<notin> set ''0123456789'' \<Longrightarrow> c \<notin> set (pad3 k)"
  using not_digit [of c k] by (auto simp: pad3_def)

lemma segmentName_inj:
  assumes "segmentName u k = segmentName v k'"
  shows "name u = name v"
proof -
  have a: "CHR ''_'' \<notin> set (pad3 k @ ''.ts'')" "CHR ''_'' \<notin> set (pad3 k' @ ''.ts'')"
    using pad3_digits [of "CHR ''_''" k] pad3_digits [of "CHR ''_''" k'] by simp_all
  from assms have "(name u @ ''_segment'') @ CHR ''_'' # (pad3 k @ ''.ts'') =
      (name v @ ''_segment'') @ CHR ''_'' # (pad3 k' @ ''.ts'')"
    by (simp add: segmentName_def)
  from split_at_last [OF a this] show ?thesis by simp
qed

lemma file_in_dir:
  "is_file_at fs (d @ [n]) \<Longrightarrow> \<exists>ds. os_Stat fs d = Inr (Dir ds)"
  by (auto simp: is_file_at_def os_Stat_snoc split: sum.splits node.splits option.splits)

lemma encoded_in_progress:
  assumes "in_progress out s" "encoded out v s s'"
  shows "in_progress out s'"
proof -
  from assms(2) have "is_file_at s' (out @ [streamName v])" by (simp add: encoded_def)
  then have "\<exists>ds. os_Stat s' out = Inr (Dir ds)" by (rule file_in_dir)
  moreover have "os_Stat s' (out @ [''master.m3u8'']) = os_Stat s (out @ [''master.m3u8''])"
    using assms(2) stream_not_master [of v] segment_not_master [of v]
    unfolding encoded_def by metis
  ultimately show ?thesis using assms(1) by (simp add: in_progress_def)
qed

lemma encoded_has_outputs: "encoded out v s s' \<Longrightarrow> has_outputs out s' v"
  by (simp add: encoded_def has_outputs_def)

lemma encoded_keeps_file:
  assumes "encoded out v s s'" "is_file_at s (out @ [n])" "\<forall>k. n \<noteq> segmentName v k"
  shows "is_file_at s' (out @ [n])"
proof (cases "n = streamName v")
  case True
  with assms(1) show ?thesis by (simp add: encoded_def)
next
  case False
  with assms(1,3) have "os_Stat s' (out @ [n]) = os_Stat s (out @ [n])"
    by (simp add: encoded_def)
  with assms(2) show ?thesis by (simp add: is_file_at_def)
qed

lemma encoded_keeps_outputs:
  assumes "encoded out v s s'" "has_outputs out s u"
  shows "has_outputs out s' u"
proof -
  have "is_file_at s' (out @ [streamName u])"
    using assms stream_not_segment [of u v]
    by (intro encoded_keeps_file [OF assms(1)]) (simp_all add: has_outputs_def)
  moreover have "\<exists>k. is_file_at s' (out @ [segmentName u k])"
  proof -
    from assms(2) obtain k where k: "is_file_at s (out @ [segmentName u k])"
      by (auto simp: has_outputs_def)
    show ?thesis
    proof (cases "\<exists>k'. segmentName u k = segmentName v k'")
      case True
      then obtain k' where "segmentName u k = segmentName v k'" by blast
      then have "name u = name v" by (rule segmentName_inj)
      then have "segmentName u = segmentName v" by (simp add: segmentName_def fun_eq_iff)
      with assms(1) show ?thesis by (simp add: encoded_def)
    next
      case False
      then have "is_file_at s' (out @ [segmentName u k])"
        by (intro encoded_keeps_file [OF assms(1) k]) simp
      then show ?thesis by blast
    qed
  qed
  ultimately show ?thesis by (simp add: has_outputs_def)
qed

lemma encode_variants_ok:
  assumes "in_progress out s"
    and "\<forall>v \<in> set vs. honours ffmpeg inputPath out v"
    and "encode_variants ffmpeg inputPath out vs s = (True, s', runs)"
  shows "in_progress out s' \<and>
    (\<forall>t \<in> set (encode_states ffmpeg inputPath out vs s). in_progress out t) \<and>
    length (encode_states ffmpeg inputPath out vs s) = length vs \<and>
    (\<forall>v \<in> set vs. has_outputs out s' v) \<and>
    (\<forall>u. has_outputs out s u \<longrightarrow> has_outputs out s' u)"
  using assms
proof (induction vs arbitrary: s runs)
  case Nil
  then show ?case by simp
next
  case (Cons v vs)
  obtain ok s1 where run: "ffmpeg (ffmpeg_args inputPath out v) s = (ok, s1)"
    by (cases "ffmpeg (ffmpeg_args inputPath out v) s") auto
  obtain b s2 runs' where rest: "encode_variants ffmpeg inputPath out vs s1 = (b, s2, runs')"
    by (cases "encode_variants ffmpeg inputPath out vs s1") auto
  from Cons.prems(3) run rest have ok: "ok" and b: "b" and s2: "s2 = s'"
    by (auto split: if_splits)
  have enc: "encoded out v s s1"
    using Cons.prems(2) run ok by (simp add: honours_def)
  have p1: "in_progress out s1" using Cons.prems(1) enc by (rule encoded_in_progress)
  have hon: "\<forall>v \<in> set vs. honours ffmpeg inputPath out v" using Cons.prems(2) by simp
  have rest': "encode_variants ffmpeg inputPath out vs s1 = (True, s', runs')"
    using rest b s2 by simp
  note ih = Cons.IH [OF p1 hon rest']
  have "has_outputs out s' v"
    using ih encoded_has_outputs [OF enc] by blast
  moreover have "has_outputs out s' u" if "has_outputs out s u" for u
    using ih encoded_keeps_outputs [OF enc that] by blast
  ultimately show ?case
    using ih p1 run ok by simp
qed


lemma in_progress_Status:
  "name_component jid \<Longrightarrow> in_progress (hlsDir @ [jid]) s \<Longrightarrow> Status s jid = InProcessing"
  by (auto simp: in_progress_def Status_eq Join_name err_of_def)

lemma one_entry:
  assumes "os_Stat s d = Inr (Dir es)" "map_of es n = Some x"
  shows "length (filter (\<lambda>e. Name e = n) (entries_or_nil (os_ReadDir s d))) = 1"
proof -
  have count: "distinct (map fst xs) \<Longrightarrow>
      length (filter (\<lambda>p. fst p = n) xs) = (if n \<in> fst ` set xs then 1 else 0)"
    for xs :: "(string \<times> node) list"
    by (induction xs) auto
  have "n \<in> fst ` set (AList.clearjunk es)"
    using assms(2) map_of_eq_None_iff [of "AList.clearjunk es" n] by (simp add: map_of_clearjunk)
  then have one: "length (filter (\<lambda>p. fst p = n) (AList.clearjunk es)) = 1"
    using count [OF distinct_clearjunk, of es] by simp
  have "length (filter (\<lambda>p. fst p = n) (sort_key fst (AList.clearjunk es))) = 1"
    using one by (simp add: filter_sort)
  moreover have "filter (\<lambda>e. Name e = n) (entries_or_nil (os_ReadDir s d)) =
      map (\<lambda>(n, m). \<lparr>Name = n, IsDir = is_dir m\<rparr>)
        (filter (\<lambda>p. fst p = n) (sort_key fst (AList.clearjunk es)))"
    using assms(1)
    by (simp add: os_ReadDir_def entries_or_nil_def filter_map comp_def case_prod_beta)
  ultimately show ?thesis by simp
qed


lemma fresh_root_absent:
  "os_Stat fs hlsDir = Inr (Dir []) \<Longrightarrow> os_Stat fs (hlsDir @ [n]) = Inl ENOENT"
  by (simp add: os_Stat_snoc)

lemma empty_in_progress:
  "os_Stat s out = Inr (Dir []) \<Longrightarrow> in_progress out s"
  by (simp add: in_progress_def os_Stat_snoc)

lemma sibling_kept:
  assumes "os_Stat s d = Inr (Dir ds)" "os_Stat s' d = Inr (Dir (AList.update m x ds))" "n \<noteq> m"
  shows "os_Stat s' (d @ [n]) = os_Stat s (d @ [n])"
  using assms by (simp add: os_Stat_snoc update_conv')



lemma two_writes:
  assumes "os_WriteFile s (d @ [a]) ca = (None, s1)" "os_WriteFile s1 (d @ [b]) cb = (None, s2)"
    and "a \<noteq> b"
  shows "is_file_at s2 (d @ [a]) \<and> is_file_at s2 (d @ [b]) \<and>
    (\<forall>n. n \<noteq> a \<and> n \<noteq> b \<longrightarrow> os_Stat s2 (d @ [n]) = os_Stat s (d @ [n]))"
proof -
  from os_WriteFile_done [OF assms(1)] obtain es where
    es: "os_Stat s d = Inr (Dir es)" "os_Stat s1 d = Inr (Dir (AList.update a (File ca) es))"
    by blast
  from os_WriteFile_done [OF assms(2)] es(2) have
    s2: "os_Stat s2 d = Inr (Dir (AList.update b (File cb) (AList.update a (File ca) es)))"
    by simp
  show ?thesis
    using assms(3) by (simp add: is_file_at_def os_Stat_snoc es(1) s2 update_conv')
qed

lemma example_honours:
  assumes pl: "Join [] (last (ffmpeg_args i out v)) = out @ [streamName v]"
    and sg: "Join [] (TrimSuffix (ffmpeg_args i out v ! 25) ''%03d.ts'' @ ''000.ts'') =
      out @ [segmentName v 0]"
  shows "honours example_ffmpeg i out v"
  unfolding honours_def
proof (intro allI impI)
  fix s s'
  assume run: "example_ffmpeg (ffmpeg_args i out v) s = (True, s')"
  obtain e1 s1 where w1: "os_WriteFile s (out @ [segmentName v 0]) ''segment'' = (e1, s1)"
    by (cases "os_WriteFile s (out @ [segmentName v 0]) ''segment''") auto
  obtain e2 s2 where w2: "os_WriteFile s1 (out @ [streamName v]) ''#EXTM3U'' = (e2, s2)"
    by (cases "os_WriteFile s1 (out @ [streamName v]) ''#EXTM3U''") auto
  from run w1 w2 have e: "e1 = None" "e2 = None" "s2 = s'"
    unfolding example_ffmpeg_def Let_def pl sg by (auto split: option.splits)
  have ne: "segmentName v 0 \<noteq> streamName v"
    using stream_not_segment [of v v 0] by simp
  from two_writes [OF w1 [unfolded e] w2 [unfolded e] ne]
  show "encoded out v s s'"
    unfolding encoded_def by blast
qed

lemma pad3_0: "pad3 0 = ''000''"
  by (simp add: pad3_def decimal.simps digit_char_def numeral_2_eq_2)

text \<open>The definitions the paths of an example unfold.\<close>

lemmas path_simps =
  three_variants_def HLS_VARIANTS_def ffmpeg_args_def segmentPattern_def streamName_def
  segmentName_def pad3_0 Join_def clean_step_def hlsDir_def TrimSuffix_def HasSuffix_def

lemma example_honours_three:
  "list_all (honours example_ffmpeg ''uploads/clip.mp4'' (Join hlsDir ''clip'')) three_variants"
proof -
  have "honours example_ffmpeg ''uploads/clip.mp4'' (Join hlsDir ''clip'') v"
    if "v \<in> set three_variants" for v
  proof (rule example_honours)
    show "Join [] (last (ffmpeg_args ''uploads/clip.mp4'' (Join hlsDir ''clip'') v)) =
        Join hlsDir ''clip'' @ [streamName v]"
      using that by (auto simp: path_simps)
    show "Join [] (TrimSuffix (ffmpeg_args ''uploads/clip.mp4'' (Join hlsDir ''clip'') v ! 25)
        ''%03d.ts'' @ ''000.ts'') = Join hlsDir ''clip'' @ [segmentName v 0]"
      using that by (auto simp: path_simps)
  qed
  then show ?thesis by (simp add: list_all_iff)
qed



section \<open>A second run\<close>

lemma encode_variants_frame:
  assumes "\<forall>v \<in> set vs. honours ffmpeg inputPath out v"
    and "encode_variants ffmpeg inputPath out vs s = (True, s', runs)"
    and "\<forall>v \<in> set vs. n \<noteq> streamName v \<and> (\<forall>k. n \<noteq> segmentName v k)"
  shows "os_Stat s' (out @ [n]) = os_Stat s (out @ [n])"
  using assms
proof (induction vs arbitrary: s runs)
  case Nil
  then show ?case by simp
next
  case (Cons v vs)
  obtain ok s1 where run: "ffmpeg (ffmpeg_args inputPath out v) s = (ok, s1)"
    by (cases "ffmpeg (ffmpeg_args inputPath out v) s") auto
  obtain b s2 runs' where rest: "encode_variants ffmpeg inputPath out vs s1 = (b, s2, runs')"
    by (cases "encode_variants ffmpeg inputPath out vs s1") auto
  from Cons.prems(2) run rest have ok: "ok" and b: "b" and s2: "s2 = s'"
    by (auto split: if_splits)
  have "encoded out v s s1"
    using Cons.prems(1) run ok by (simp add: honours_def)
  then have first: "os_Stat s1 (out @ [n]) = os_Stat s (out @ [n])"
    using Cons.prems(3) by (simp add: encoded_def)
  have rest': "encode_variants ffmpeg inputPath out vs s1 = (True, s', runs')"
    using rest b s2 by simp
  have "os_Stat s' (out @ [n]) = os_Stat s1 (out @ [n])"
    using Cons.prems(1,3) by (intro Cons.IH [OF _ rest']) simp_all
  with first show ?case by simp
qed

lemma replaced_directory:
  assumes n: "name_component jid"
    and root: "os_Stat fs hlsDir = Inr (Dir es)"
    and contract: "\<forall>v \<in> set variants. honours ffmpeg inputPath (hlsDir @ [jid]) v"
    and ok: "fst (encode_variants ffmpeg inputPath (hlsDir @ [jid]) variants
               (fresh_dir (hlsDir @ [jid]) fs))"
  shows "os_Stat (ConvertToHLS ffmpeg variants inputPath jid fs)
        (hlsDir @ [jid, ''master.m3u8'']) = Inr (File (master_playlist variants)) \<and>
    (\<forall>v \<in> set variants.
       has_outputs (hlsDir @ [jid]) (ConvertToHLS ffmpeg variants inputPath jid fs) v) \<and>
    (\<forall>x. \<not> written_by variants x \<longrightarrow>
       os_Stat (ConvertToHLS ffmpeg variants inputPath jid fs) (hlsDir @ [jid, x]) = Inl ENOENT)"
proof -
  let ?out = "hlsDir @ [jid]"
  let ?m = "''master.m3u8''"
  let ?s2 = "fresh_dir ?out fs"
  let ?final = "ConvertToHLS ffmpeg variants inputPath jid fs"
  have out: "Join hlsDir jid = ?out" using n by (rule Join_name)
  have mp: "Join ?out ?m = ?out @ [?m]" by (rule Join_name) simp
  obtain s3 runs where enc: "encode_variants ffmpeg inputPath ?out variants ?s2 = (True, s3, runs)"
    using ok by (cases "encode_variants ffmpeg inputPath ?out variants ?s2") auto
  have empty: "os_Stat ?s2 ?out = Inr (Dir [])" by (rule fresh_dir_empty [OF root])
  have p2: "in_progress ?out ?s2" using empty by (rule empty_in_progress)
  note loop = encode_variants_ok [OF p2 contract enc]
  from loop have "in_progress ?out s3" by blast
  then obtain ds where ds: "os_Stat s3 ?out = Inr (Dir ds)"
    and nom: "os_Stat s3 (?out @ [?m]) = Inl ENOENT"
    by (auto simp: in_progress_def)
  have free: "\<forall>x. map_of ds ?m \<noteq> Some (Dir x)"
    using nom master_stat [OF ds, of ?m] by (auto split: option.splits)
  obtain s4 where w: "os_WriteFile s3 (?out @ [?m]) (master_playlist variants) = (None, s4)"
    using os_WriteFile_free [OF ds free, of "master_playlist variants"]
    by (cases "os_WriteFile s3 (?out @ [?m]) (master_playlist variants)") auto
  from os_WriteFile_done [OF w] ds
  have ds4: "os_Stat s4 ?out = Inr (Dir (AList.update ?m (File (master_playlist variants)) ds))"
    by simp
  have final: "?final = s4"
    using enc w by (simp add: ConvertToHLS_def out mp)
  have keep: "os_Stat s4 (?out @ [x]) = os_Stat s3 (?out @ [x])" if "x \<noteq> ?m" for x
    using ds ds4 that by (rule sibling_kept)
  have a: "os_Stat ?final (hlsDir @ [jid, ?m]) = Inr (File (master_playlist variants))"
    unfolding final using master_stat [OF ds4, of ?m] by (simp add: update_conv')
  have b: "has_outputs ?out ?final v" if v: "v \<in> set variants" for v
  proof -
    from loop v have h: "has_outputs ?out s3 v" by blast
    show ?thesis
      using h keep [OF stream_not_master [of v]] keep [OF segment_not_master [of v]]
      unfolding final has_outputs_def is_file_at_def by simp
  qed
  have c: "os_Stat ?final (hlsDir @ [jid, x]) = Inl ENOENT" if x: "\<not> written_by variants x" for x
  proof -
    from x have xm: "x \<noteq> ?m"
      and xv: "\<forall>v \<in> set variants. x \<noteq> streamName v \<and> (\<forall>k. x \<noteq> segmentName v k)"
      by (auto simp: written_by_def)
    have "os_Stat ?s2 (hlsDir @ [jid, x]) = Inl ENOENT"
      using master_stat [OF empty, of x] by simp
    moreover have "os_Stat s3 (?out @ [x]) = os_Stat ?s2 (?out @ [x])"
      using contract enc xv by (rule encode_variants_frame)
    ultimately show ?thesis
      unfolding final using keep [OF xm] by simp
  qed
  from a b c show ?thesis by blast
qed



end
